theory Spec2Isabelle
  imports Main "HOL-Library.Char_ord" "HOL-Library.List_Lexorder"
begin

section \<open>Data model (src/entities)\<close>

text \<open>
  Primary keys are UUIDs generated by the store; they are modelled as natural numbers
  drawn from a counter kept with the tables.  Dates are integers (milliseconds since
  the epoch, the resolution of a JavaScript \<open>Date\<close>), money is an integer number of
  hundredths.  The audit column \<open>updatedAt\<close> is never read by the service and is left out.
\<close>

datatype SeatStatus = AVAILABLE | RESERVED | SOLD

datatype ReservationStatus = PENDING | CONFIRMED | EXPIRED | CANCELLED

record Session =
  session_id :: nat
  movieName :: string
  startTime :: int
  roomNumber :: string
  ticketPrice :: int

record Seat =
  seat_id :: nat
  seatNumber :: string
  seat_status :: SeatStatus
  sessionId :: nat

record Reservation =
  reservation_id :: nat
  seatId :: nat
  userId :: string
  status :: ReservationStatus
  expiresAt :: int
  createdAt :: int

record Sale =
  sale_id :: nat
  sale_seatId :: nat
  sale_userId :: string
  reservationId :: nat
  amount :: int
  paidAt :: int
  sale_createdAt :: int

text \<open>The tables of the store, in row order, and the supply of fresh primary keys.\<close>

record db =
  sessions :: "Session list"
  seats :: "Seat list"
  reservations :: "Reservation list"
  sales :: "Sale list"
  nextId :: nat

section \<open>Requests, responses and errors (src/dto)\<close>

record CreateReservationDto =
  cr_sessionId :: nat
  seatNumbers :: "string list"
  cr_userId :: string

record ReservationResponseDto =
  rr_id :: nat
  rr_seatId :: nat
  rr_seatNumber :: string
  rr_userId :: string
  rr_status :: ReservationStatus
  rr_expiresAt :: int
  rr_createdAt :: int

record ConfirmPaymentDto =
  cp_reservationId :: nat
  cp_userId :: string

record SaleResponseDto =
  sr_id :: nat
  sr_seatId :: nat
  sr_seatNumber :: string
  sr_userId :: string
  sr_reservationId :: nat
  sr_amount :: int
  sr_movieName :: string
  sr_sessionStartTime :: int
  sr_roomNumber :: string
  sr_paidAt :: int
  sr_createdAt :: int

text \<open>
  One constructor per \<open>throw\<close> of the service, carrying what the message interpolates.
  \<open>TypeError\<close> stands for reading a property of an absent relation, and
  \<open>TransactionNotStartedError\<close> is what the query runner's \<open>rollbackTransaction\<close> throws
  when its transaction is no longer active.
\<close>

datatype error =
    SessionNotFound nat
  | SeatNotFound string nat
  | SeatNotAvailable string SeatStatus
  | ReservationNotFound nat
  | ConfirmedSaleMissing
  | ReservationNotPending ReservationStatus
  | ReservationHasExpired
  | PrimarySaleNotFound
  | SaleNotFoundAfterCreation
  | TypeError
  | TransactionNotStartedError

datatype exception_class = NotFoundException | BadRequestException | PlainError | TypeORMError

fun class_of :: "error \<Rightarrow> exception_class" where
  "class_of (SessionNotFound _) = NotFoundException"
| "class_of (SeatNotFound _ _) = NotFoundException"
| "class_of (SeatNotAvailable _ _) = BadRequestException"
| "class_of (ReservationNotFound _) = NotFoundException"
| "class_of ConfirmedSaleMissing = BadRequestException"
| "class_of (ReservationNotPending _) = BadRequestException"
| "class_of ReservationHasExpired = BadRequestException"
| "class_of PrimarySaleNotFound = PlainError"
| "class_of SaleNotFoundAfterCreation = PlainError"
| "class_of TypeError = PlainError"
| "class_of TransactionNotStartedError = TypeORMError"

text \<open>
  What a service method throws when the store may reject an operation: the
  \<open>QueryFailedError\<close> of a rejected query (a deadlock or a lock timeout), or one of the
  errors above.
\<close>

datatype store_error = QueryFailedError | ServiceError error

definition liftError :: "error + 'a \<Rightarrow> store_error + 'a" where
  "liftError r = (case r of Inl e \<Rightarrow> Inl (ServiceError e) | Inr v \<Rightarrow> Inr v)"

section \<open>Store access (the entity manager of a query runner)\<close>

definition getOne :: "'a list \<Rightarrow> 'a option" where
  "getOne rows = (case rows of [] \<Rightarrow> None | x # _ \<Rightarrow> Some x)"

definition findSession :: "db \<Rightarrow> nat \<Rightarrow> Session option" where
  "findSession s sid = find (\<lambda>x. session_id x = sid) (sessions s)"

definition seatById :: "db \<Rightarrow> nat \<Rightarrow> Seat option" where
  "seatById s i = find (\<lambda>x. seat_id x = i) (seats s)"

text \<open>\<open>SELECT ... FROM seats WHERE sessionId = :sessionId AND seatNumber = :seatNumber FOR UPDATE\<close>\<close>

definition lockSeat :: "db \<Rightarrow> nat \<Rightarrow> string \<Rightarrow> Seat option" where
  "lockSeat s sid label = find (\<lambda>x. sessionId x = sid \<and> seatNumber x = label) (seats s)"

text \<open>
  The inner joins \<open>reservation.seat\<close> and \<open>seat.session\<close>: a reservation row without its
  seat (or whose seat has no session) drops out of the result.
\<close>

definition joinSeat :: "db \<Rightarrow> Reservation \<Rightarrow> (Reservation \<times> Seat) option" where
  "joinSeat s r = map_option (Pair r) (seatById s (seatId r))"

definition joinSeatSession :: "db \<Rightarrow> Reservation \<Rightarrow> (Reservation \<times> Seat \<times> Session) option" where
  "joinSeatSession s r =
     (case seatById s (seatId r) of
        None \<Rightarrow> None
      | Some seat \<Rightarrow> map_option (\<lambda>sess. (r, seat, sess)) (findSession s (sessionId seat)))"

text \<open>The left joins of \<open>findOne(Sale, {relations: ['seat', 'seat.session']})\<close>.\<close>

definition saleRelations :: "db \<Rightarrow> Sale \<Rightarrow> (Seat \<times> Session option) option" where
  "saleRelations s sale =
     map_option (\<lambda>seat. (seat, findSession s (sessionId seat))) (seatById s (sale_seatId sale))"

text \<open>\<open>save\<close> of an entity that was loaded: the row with its primary key is rewritten.\<close>

definition saveSeat :: "Seat \<Rightarrow> db \<Rightarrow> db" where
  "saveSeat seat s =
     s\<lparr>seats := map (\<lambda>x. if seat_id x = seat_id seat then seat else x) (seats s)\<rparr>"

definition saveReservation :: "Reservation \<Rightarrow> db \<Rightarrow> db" where
  "saveReservation r s =
     s\<lparr>reservations :=
         map (\<lambda>x. if reservation_id x = reservation_id r then r else x) (reservations s)\<rparr>"

text \<open>\<open>save\<close> of a created entity: a row with a generated key is appended.\<close>

definition insertReservation ::
    "nat \<Rightarrow> string \<Rightarrow> int \<Rightarrow> int \<Rightarrow> db \<Rightarrow> Reservation \<times> db" where
  "insertReservation seat_ref user expires dbNow s =
     (let r = \<lparr>reservation_id = nextId s, seatId = seat_ref, userId = user,
                status = PENDING, expiresAt = expires, createdAt = dbNow\<rparr>
      in (r, s\<lparr>reservations := reservations s @ [r], nextId := Suc (nextId s)\<rparr>))"

definition insertSale ::
    "nat \<Rightarrow> string \<Rightarrow> nat \<Rightarrow> int \<Rightarrow> int \<Rightarrow> int \<Rightarrow> db \<Rightarrow> Sale \<times> db" where
  "insertSale seat_ref user res_ref price paid dbNow s =
     (let sale = \<lparr>sale_id = nextId s, sale_seatId = seat_ref, sale_userId = user,
                   reservationId = res_ref, amount = price, paidAt = paid,
                   sale_createdAt = dbNow\<rparr>
      in (sale, s\<lparr>sales := sales s @ [sale], nextId := Suc (nextId s)\<rparr>))"

section \<open>ReservationsService.expireReservation\<close>

text \<open>
  \<open>now\<close> is the value of \<open>new Date()\<close> read by the call.  Every path of the source commits;
  the result is the committed store.
\<close>

definition lockReservationWithSeat :: "db \<Rightarrow> nat \<Rightarrow> (Reservation \<times> Seat) option" where
  "lockReservationWithSeat s rid =
     getOne (filter (\<lambda>(r, seat). reservation_id r = rid)
               (List.map_filter (joinSeat s) (reservations s)))"

definition expireReservation :: "nat \<Rightarrow> int \<Rightarrow> db \<Rightarrow> db" where
  "expireReservation rid now s =
     (case lockReservationWithSeat s rid of
        None \<Rightarrow> s
      | Some (reservation, seat) \<Rightarrow>
          if status reservation \<noteq> PENDING then s
          else if now \<le> expiresAt reservation then s
          else saveReservation (reservation\<lparr>status := EXPIRED\<rparr>)
                 (saveSeat (seat\<lparr>seat_status := AVAILABLE\<rparr>) s))"

section \<open>ReservationsService.createReservation\<close>

text \<open>
  The body of the \<open>for\<close> loop over the sorted seat numbers.  It works on the open
  transaction's copy of the store and returns it with the outcome, so that a \<open>throw\<close>
  in a later iteration leaves the writes of the earlier ones behind in that copy.
\<close>

definition reserveSeat ::
    "nat \<Rightarrow> string \<Rightarrow> int \<Rightarrow> int \<Rightarrow> string \<Rightarrow> db \<Rightarrow> db \<times> (error + ReservationResponseDto)" where
  "reserveSeat sid user expires dbNow label s =
     (case lockSeat s sid label of
        None \<Rightarrow> (s, Inl (SeatNotFound label sid))
      | Some seat \<Rightarrow>
          if seat_status seat \<noteq> AVAILABLE
          then (s, Inl (SeatNotAvailable label (seat_status seat)))
          else
            (case insertReservation (seat_id seat) user expires dbNow
                    (saveSeat (seat\<lparr>seat_status := RESERVED\<rparr>) s) of
               (savedReservation, s') \<Rightarrow>
                 (s', Inr \<lparr>rr_id = reservation_id savedReservation, rr_seatId = seat_id seat,
                           rr_seatNumber = seatNumber seat, rr_userId = userId savedReservation,
                           rr_status = status savedReservation,
                           rr_expiresAt = expiresAt savedReservation,
                           rr_createdAt = createdAt savedReservation\<rparr>)))"

fun reserveSeats ::
    "nat \<Rightarrow> string \<Rightarrow> int \<Rightarrow> int \<Rightarrow> string list \<Rightarrow> ReservationResponseDto list \<Rightarrow> db
      \<Rightarrow> db \<times> (error + ReservationResponseDto list)" where
  "reserveSeats sid user expires dbNow [] acc s = (s, Inr acc)"
| "reserveSeats sid user expires dbNow (label # rest) acc s =
     (case reserveSeat sid user expires dbNow label s of
        (w, Inl e) \<Rightarrow> (w, Inl e)
      | (w, Inr r) \<Rightarrow> reserveSeats sid user expires dbNow rest (acc @ [r]) w)"

text \<open>
  \<open>reservationTtl\<close> is the configured TTL in seconds, \<open>now\<close> the value of \<open>Date.now()\<close>,
  \<open>dbNow\<close> the store's clock for \<open>createdAt\<close>.  The result pairs the committed store with
  what the call returns or throws: \<open>commitTransaction\<close> keeps the working copy,
  \<open>rollbackTransaction\<close> in the \<open>catch\<close> block goes back to the store the call started from.
  JavaScript's default \<open>sort\<close> orders strings by code unit, \<open>sort\<close> here by character code.
\<close>

definition createReservation ::
    "int \<Rightarrow> CreateReservationDto \<Rightarrow> int \<Rightarrow> int \<Rightarrow> db
      \<Rightarrow> db \<times> (error + ReservationResponseDto list)" where
  "createReservation reservationTtl dto now dbNow s =
     (let sortedSeatNumbers = sort (seatNumbers dto) in
      case findSession s (cr_sessionId dto) of
        None \<Rightarrow> (s, Inl (SessionNotFound (cr_sessionId dto)))
      | Some session \<Rightarrow>
          (case reserveSeats (session_id session) (cr_userId dto) (now + reservationTtl * 1000)
                  dbNow sortedSeatNumbers [] s of
             (w, Inl e) \<Rightarrow> (s, Inl e)
           | (w, Inr rs) \<Rightarrow> (w, Inr rs)))"

section \<open>ReservationsService.confirmPayment\<close>

definition lockReservationForUser ::
    "db \<Rightarrow> nat \<Rightarrow> string \<Rightarrow> (Reservation \<times> Seat \<times> Session) option" where
  "lockReservationForUser s rid user =
     getOne (filter (\<lambda>(r, seat, session). reservation_id r = rid \<and> userId r = user)
               (List.map_filter (joinSeatSession s) (reservations s)))"

text \<open>The booking group: the sibling query of \<open>confirmPayment\<close>, in table order.\<close>

definition lockRelatedReservations ::
    "db \<Rightarrow> string \<Rightarrow> nat \<Rightarrow> int \<Rightarrow> (Reservation \<times> Seat \<times> Session) list" where
  "lockRelatedReservations s user sess expires =
     filter (\<lambda>(r, seat, session).
               userId r = user \<and> sessionId seat = sess \<and> expiresAt r = expires
               \<and> status r = PENDING)
       (List.map_filter (joinSeatSession s) (reservations s))"

definition confirmOne :: "int \<Rightarrow> int \<Rightarrow> Reservation \<times> Seat \<times> Session \<Rightarrow> db \<Rightarrow> Sale \<times> db" where
  "confirmOne paid dbNow m s =
     (case m of (res, seat, session) \<Rightarrow>
        insertSale (seat_id seat) (userId res) (reservation_id res) (ticketPrice session) paid
          dbNow
          (saveSeat (seat\<lparr>seat_status := SOLD\<rparr>)
             (saveReservation (res\<lparr>status := CONFIRMED\<rparr>) s)))"

fun confirmAll ::
    "int \<Rightarrow> int \<Rightarrow> (Reservation \<times> Seat \<times> Session) list \<Rightarrow> Sale list \<Rightarrow> db \<Rightarrow> Sale list \<times> db" where
  "confirmAll paid dbNow [] acc s = (acc, s)"
| "confirmAll paid dbNow (m # ms) acc s =
     (case confirmOne paid dbNow m s of
        (savedSale, s') \<Rightarrow> confirmAll paid dbNow ms (acc @ [savedSale]) s')"

text \<open>The object literal both \<open>return\<close> statements of \<open>confirmPayment\<close> build.\<close>

definition saleDto :: "Sale \<Rightarrow> Seat \<Rightarrow> Session \<Rightarrow> SaleResponseDto" where
  "saleDto sale seat session =
     \<lparr>sr_id = sale_id sale, sr_seatId = sale_seatId sale,
      sr_seatNumber = seatNumber seat, sr_userId = sale_userId sale,
      sr_reservationId = reservationId sale, sr_amount = amount sale,
      sr_movieName = movieName session, sr_sessionStartTime = startTime session,
      sr_roomNumber = roomNumber session, sr_paidAt = paidAt sale,
      sr_createdAt = sale_createdAt sale\<rparr>"

definition saleResponse :: "db \<Rightarrow> Sale \<Rightarrow> error + SaleResponseDto" where
  "saleResponse s sale =
     (case saleRelations s sale of
        None \<Rightarrow> Inl TypeError
      | Some (seat, None) \<Rightarrow> Inl TypeError
      | Some (seat, Some session) \<Rightarrow> Inr (saleDto sale seat session))"

text \<open>
  The \<open>try\<close> block of \<open>confirmPayment\<close>.  \<open>now\<close> and \<open>paid\<close> are the two values of
  \<open>new Date()\<close> the call reads (the expiry test and \<open>paidAt\<close>).  The result is the
  transaction's working copy of the store, whether the transaction is still active (it is
  until \<open>commitTransaction\<close> has run), and what the block returns or throws.
\<close>

definition confirmPayment_try ::
    "ConfirmPaymentDto \<Rightarrow> int \<Rightarrow> int \<Rightarrow> int \<Rightarrow> db
      \<Rightarrow> (db \<times> bool) \<times> (error + SaleResponseDto)" where
  "confirmPayment_try dto now paid dbNow s =
     (case lockReservationForUser s (cp_reservationId dto) (cp_userId dto) of
        None \<Rightarrow> ((s, True), Inl (ReservationNotFound (cp_reservationId dto)))
      | Some (reservation, seat, session) \<Rightarrow>
          if status reservation = CONFIRMED then
            (case find (\<lambda>x. reservationId x = reservation_id reservation) (sales s) of
               None \<Rightarrow> ((s, False), Inl ConfirmedSaleMissing)
             | Some existingSale \<Rightarrow> ((s, False), saleResponse s existingSale))
          else if status reservation \<noteq> PENDING then
            ((s, True), Inl (ReservationNotPending (status reservation)))
          else if now > expiresAt reservation then ((s, True), Inl ReservationHasExpired)
          else
            (case confirmAll paid dbNow
                    (lockRelatedReservations s (userId reservation) (sessionId seat)
                       (expiresAt reservation)) [] s of
               (newSales, w) \<Rightarrow>
                 (case find (\<lambda>x. reservationId x = reservation_id reservation) newSales of
                    None \<Rightarrow> ((w, False), Inl PrimarySaleNotFound)
                  | Some primarySale \<Rightarrow>
                      (case find (\<lambda>x. sale_id x = sale_id primarySale) (sales w) of
                         None \<Rightarrow> ((w, False), Inl SaleNotFoundAfterCreation)
                       | Some saleWithRelations \<Rightarrow>
                           ((w, False), saleResponse w saleWithRelations)))))"

text \<open>
  \<open>queryRunner.rollbackTransaction()\<close>: with an active transaction the store goes back to
  \<open>start\<close>, the state the transaction began from; without one (after
  \<open>commitTransaction\<close>) the call throws \<open>TransactionNotStartedError\<close> and the committed
  store stays.
\<close>

definition rollbackTransaction :: "bool \<Rightarrow> db \<Rightarrow> db \<Rightarrow> error + db" where
  "rollbackTransaction isTransactionActive start w =
     (if isTransactionActive then Inr start else Inl TransactionNotStartedError)"

text \<open>
  The whole method: the \<open>catch\<close> block awaits \<open>rollbackTransaction\<close> and then rethrows
  the error it caught; when the rollback itself throws, that error is the one the caller
  gets.  The result pairs the committed store with what the call returns or throws.
\<close>

definition confirmPayment ::
    "ConfirmPaymentDto \<Rightarrow> int \<Rightarrow> int \<Rightarrow> int \<Rightarrow> db \<Rightarrow> db \<times> (error + SaleResponseDto)" where
  "confirmPayment dto now paid dbNow s =
     (case confirmPayment_try dto now paid dbNow s of
        ((w, isTransactionActive), Inr response) \<Rightarrow> (w, Inr response)
      | ((w, isTransactionActive), Inl e) \<Rightarrow>
          (case rollbackTransaction isTransactionActive s w of
             Inl rollbackError \<Rightarrow> (w, Inl rollbackError)
           | Inr restored \<Rightarrow> (restored, Inl e)))"

section \<open>The service methods over a store that may reject an operation\<close>

text \<open>
  Every query and every \<open>save\<close> a method awaits between \<open>startTransaction\<close> and
  \<open>commitTransaction\<close> may be rejected by the store with \<open>QueryFailedError\<close>.  The
  store operations of one call are counted from 0 in the order the call issues them, and
  \<open>fails k\<close> tells whether the store rejects the \<open>k\<close>-th.  The definitions of this section
  are the three service methods with these rejections made explicit; each returns, with
  the committed store and what the call returns or throws, the number of store operations
  the call has issued.  \<open>commitTransaction\<close> and what follows it are taken to succeed.
\<close>

text \<open>The body of the seat loop: the seat query, \<open>save(Seat)\<close>, \<open>save(Reservation)\<close>.\<close>

definition reserveSeatOn ::
    "(nat \<Rightarrow> bool) \<Rightarrow> nat \<Rightarrow> nat \<Rightarrow> string \<Rightarrow> int \<Rightarrow> int \<Rightarrow> string \<Rightarrow> db
      \<Rightarrow> (db \<times> (store_error + ReservationResponseDto)) \<times> nat" where
  "reserveSeatOn fails k sid user expires dbNow label s =
     (if fails k then ((s, Inl QueryFailedError), k + 1)
      else
        (case lockSeat s sid label of
           None \<Rightarrow> ((s, Inl (ServiceError (SeatNotFound label sid))), k + 1)
         | Some seat \<Rightarrow>
             if seat_status seat \<noteq> AVAILABLE
             then ((s, Inl (ServiceError (SeatNotAvailable label (seat_status seat)))), k + 1)
             else if fails (k + 1) then ((s, Inl QueryFailedError), k + 2)
             else if fails (k + 2)
             then ((saveSeat (seat\<lparr>seat_status := RESERVED\<rparr>) s, Inl QueryFailedError), k + 3)
             else
               (case insertReservation (seat_id seat) user expires dbNow
                       (saveSeat (seat\<lparr>seat_status := RESERVED\<rparr>) s) of
                  (savedReservation, s') \<Rightarrow>
                    ((s', Inr \<lparr>rr_id = reservation_id savedReservation, rr_seatId = seat_id seat,
                               rr_seatNumber = seatNumber seat,
                               rr_userId = userId savedReservation,
                               rr_status = status savedReservation,
                               rr_expiresAt = expiresAt savedReservation,
                               rr_createdAt = createdAt savedReservation\<rparr>), k + 3))))"

fun reserveSeatsOn ::
    "(nat \<Rightarrow> bool) \<Rightarrow> nat \<Rightarrow> nat \<Rightarrow> string \<Rightarrow> int \<Rightarrow> int \<Rightarrow> string list
      \<Rightarrow> ReservationResponseDto list \<Rightarrow> db
      \<Rightarrow> (db \<times> (store_error + ReservationResponseDto list)) \<times> nat" where
  "reserveSeatsOn fails k sid user expires dbNow [] acc s = ((s, Inr acc), k)"
| "reserveSeatsOn fails k sid user expires dbNow (label # rest) acc s =
     (case reserveSeatOn fails k sid user expires dbNow label s of
        ((w, Inl e), k') \<Rightarrow> ((w, Inl e), k')
      | ((w, Inr r), k') \<Rightarrow> reserveSeatsOn fails k' sid user expires dbNow rest (acc @ [r]) w)"

text \<open>
  \<open>createReservation\<close>: operation 0 is the session lookup, the seat loop follows.  A throw
  inside the \<open>try\<close> block reaches the \<open>catch\<close> block, which rolls the transaction back and
  rethrows; nothing in the method calls it again.
\<close>

definition createReservationOn ::
    "(nat \<Rightarrow> bool) \<Rightarrow> int \<Rightarrow> CreateReservationDto \<Rightarrow> int \<Rightarrow> int \<Rightarrow> db
      \<Rightarrow> (db \<times> (store_error + ReservationResponseDto list)) \<times> nat" where
  "createReservationOn fails reservationTtl dto now dbNow s =
     (let sortedSeatNumbers = sort (seatNumbers dto) in
      if fails 0 then ((s, Inl QueryFailedError), 1)
      else
        (case findSession s (cr_sessionId dto) of
           None \<Rightarrow> ((s, Inl (ServiceError (SessionNotFound (cr_sessionId dto)))), 1)
         | Some session \<Rightarrow>
             (case reserveSeatsOn fails 1 (session_id session) (cr_userId dto)
                     (now + reservationTtl * 1000) dbNow sortedSeatNumbers [] s of
                ((w, Inl e), n) \<Rightarrow> ((s, Inl e), n)
              | ((w, Inr rs), n) \<Rightarrow> ((w, Inr rs), n))))"

text \<open>
  \<open>expireReservation\<close>: operation 0 is the reservation query, then \<open>save(Seat)\<close> and
  \<open>save(Reservation)\<close>; a rejected operation is caught, rolled back and rethrown.
\<close>

definition expireReservationOn ::
    "(nat \<Rightarrow> bool) \<Rightarrow> nat \<Rightarrow> int \<Rightarrow> db \<Rightarrow> (db \<times> (store_error + unit)) \<times> nat" where
  "expireReservationOn fails rid now s =
     (if fails 0 then ((s, Inl QueryFailedError), 1)
      else
        (case lockReservationWithSeat s rid of
           None \<Rightarrow> ((s, Inr ()), 1)
         | Some (reservation, seat) \<Rightarrow>
             if status reservation \<noteq> PENDING then ((s, Inr ()), 1)
             else if now \<le> expiresAt reservation then ((s, Inr ()), 1)
             else if fails 1 then ((s, Inl QueryFailedError), 2)
             else if fails 2 then ((s, Inl QueryFailedError), 3)
             else
               ((saveReservation (reservation\<lparr>status := EXPIRED\<rparr>)
                   (saveSeat (seat\<lparr>seat_status := AVAILABLE\<rparr>) s), Inr ()), 3)))"

text \<open>
  The body of the confirmation loop: \<open>save(Reservation)\<close>, \<open>save(Seat)\<close>, \<open>save(Sale)\<close>.
\<close>

definition confirmOneOn ::
    "(nat \<Rightarrow> bool) \<Rightarrow> nat \<Rightarrow> int \<Rightarrow> int \<Rightarrow> Reservation \<times> Seat \<times> Session \<Rightarrow> db
      \<Rightarrow> (db \<times> (store_error + Sale)) \<times> nat" where
  "confirmOneOn fails k paid dbNow m s =
     (case m of (res, seat, session) \<Rightarrow>
        if fails k then ((s, Inl QueryFailedError), k + 1)
        else if fails (k + 1)
        then ((saveReservation (res\<lparr>status := CONFIRMED\<rparr>) s, Inl QueryFailedError), k + 2)
        else if fails (k + 2)
        then ((saveSeat (seat\<lparr>seat_status := SOLD\<rparr>)
                 (saveReservation (res\<lparr>status := CONFIRMED\<rparr>) s), Inl QueryFailedError), k + 3)
        else
          (case insertSale (seat_id seat) (userId res) (reservation_id res) (ticketPrice session)
                  paid dbNow
                  (saveSeat (seat\<lparr>seat_status := SOLD\<rparr>)
                     (saveReservation (res\<lparr>status := CONFIRMED\<rparr>) s)) of
             (savedSale, s') \<Rightarrow> ((s', Inr savedSale), k + 3)))"

fun confirmAllOn ::
    "(nat \<Rightarrow> bool) \<Rightarrow> nat \<Rightarrow> int \<Rightarrow> int \<Rightarrow> (Reservation \<times> Seat \<times> Session) list \<Rightarrow> Sale list
      \<Rightarrow> db \<Rightarrow> (db \<times> (store_error + Sale list)) \<times> nat" where
  "confirmAllOn fails k paid dbNow [] acc s = ((s, Inr acc), k)"
| "confirmAllOn fails k paid dbNow (m # ms) acc s =
     (case confirmOneOn fails k paid dbNow m s of
        ((w, Inl e), k') \<Rightarrow> ((w, Inl e), k')
      | ((w, Inr savedSale), k') \<Rightarrow>
          confirmAllOn fails k' paid dbNow ms (acc @ [savedSale]) w)"

text \<open>
  The \<open>try\<close> block of \<open>confirmPayment\<close>: operation 0 is the reservation query,
  operation 1 the sale lookup of the idempotent path or the query for the booking group,
  and the saves of the loop follow.
\<close>

definition confirmPaymentOn_try ::
    "(nat \<Rightarrow> bool) \<Rightarrow> ConfirmPaymentDto \<Rightarrow> int \<Rightarrow> int \<Rightarrow> int \<Rightarrow> db
      \<Rightarrow> ((db \<times> bool) \<times> (store_error + SaleResponseDto)) \<times> nat" where
  "confirmPaymentOn_try fails dto now paid dbNow s =
     (if fails 0 then (((s, True), Inl QueryFailedError), 1)
      else
        (case lockReservationForUser s (cp_reservationId dto) (cp_userId dto) of
           None \<Rightarrow> (((s, True), Inl (ServiceError (ReservationNotFound (cp_reservationId dto)))), 1)
         | Some (reservation, seat, session) \<Rightarrow>
             if status reservation = CONFIRMED then
               (if fails 1 then (((s, True), Inl QueryFailedError), 2)
                else
                  (case find (\<lambda>x. reservationId x = reservation_id reservation) (sales s) of
                     None \<Rightarrow> (((s, False), Inl (ServiceError ConfirmedSaleMissing)), 2)
                   | Some existingSale \<Rightarrow>
                       (((s, False), liftError (saleResponse s existingSale)), 2)))
             else if status reservation \<noteq> PENDING then
               (((s, True), Inl (ServiceError (ReservationNotPending (status reservation)))), 1)
             else if now > expiresAt reservation then
               (((s, True), Inl (ServiceError ReservationHasExpired)), 1)
             else if fails 1 then (((s, True), Inl QueryFailedError), 2)
             else
               (case confirmAllOn fails 2 paid dbNow
                       (lockRelatedReservations s (userId reservation) (sessionId seat)
                          (expiresAt reservation)) [] s of
                  ((w, Inl e), n) \<Rightarrow> (((w, True), Inl e), n)
                | ((w, Inr newSales), n) \<Rightarrow>
                    (case find (\<lambda>x. reservationId x = reservation_id reservation) newSales of
                       None \<Rightarrow> (((w, False), Inl (ServiceError PrimarySaleNotFound)), n)
                     | Some primarySale \<Rightarrow>
                         (case find (\<lambda>x. sale_id x = sale_id primarySale) (sales w) of
                            None \<Rightarrow> (((w, False), Inl (ServiceError SaleNotFoundAfterCreation)), n)
                          | Some saleWithRelations \<Rightarrow>
                              (((w, False),
                                liftError (saleResponse w saleWithRelations)), n))))))"

definition confirmPaymentOn ::
    "(nat \<Rightarrow> bool) \<Rightarrow> ConfirmPaymentDto \<Rightarrow> int \<Rightarrow> int \<Rightarrow> int \<Rightarrow> db
      \<Rightarrow> (db \<times> (store_error + SaleResponseDto)) \<times> nat" where
  "confirmPaymentOn fails dto now paid dbNow s =
     (case confirmPaymentOn_try fails dto now paid dbNow s of
        (((w, isTransactionActive), Inr response), n) \<Rightarrow> ((w, Inr response), n)
      | (((w, isTransactionActive), Inl e), n) \<Rightarrow>
          (case rollbackTransaction isTransactionActive s w of
             Inl rollbackError \<Rightarrow> ((w, Inl (ServiceError rollbackError)), n)
           | Inr restored \<Rightarrow> ((restored, Inl e), n)))"

section \<open>retryWithBackoff (src/utils/retry.util.ts)\<close>

text \<open>
  \<open>RetryOptions\<close> has every field optional; \<open>defaultOptions\<close> fills the gaps.  An error
  class of \<open>retryableErrors\<close> is represented by its \<open>instanceof\<close> test.  The \<open>onRetry\<close>
  callback (a no-op by default) is left out.
\<close>

record 'e RetryOptions =
  opt_maxAttempts :: "nat option"
  opt_initialDelayMs :: "nat option"
  opt_maxDelayMs :: "nat option"
  opt_backoffMultiplier :: "nat option"
  opt_retryableErrors :: "('e \<Rightarrow> bool) list option"

record 'e RequiredRetryOptions =
  maxAttempts :: nat
  initialDelayMs :: nat
  maxDelayMs :: nat
  backoffMultiplier :: nat
  retryableErrors :: "('e \<Rightarrow> bool) list"

definition defaultOptions :: "'e RequiredRetryOptions" where
  "defaultOptions =
     \<lparr>maxAttempts = 3, initialDelayMs = 100, maxDelayMs = 5000, backoffMultiplier = 2,
      retryableErrors = []\<rparr>"

definition mergeOptions :: "'e RequiredRetryOptions \<Rightarrow> 'e RetryOptions \<Rightarrow> 'e RequiredRetryOptions" where
  "mergeOptions d options =
     \<lparr>maxAttempts = (case opt_maxAttempts options of None \<Rightarrow> maxAttempts d | Some v \<Rightarrow> v),
      initialDelayMs = (case opt_initialDelayMs options of None \<Rightarrow> initialDelayMs d | Some v \<Rightarrow> v),
      maxDelayMs = (case opt_maxDelayMs options of None \<Rightarrow> maxDelayMs d | Some v \<Rightarrow> v),
      backoffMultiplier =
        (case opt_backoffMultiplier options of None \<Rightarrow> backoffMultiplier d | Some v \<Rightarrow> v),
      retryableErrors =
        (case opt_retryableErrors options of None \<Rightarrow> retryableErrors d | Some v \<Rightarrow> v)\<rparr>"

datatype ('e, 'a) outcome = Returned 'a | Thrown 'e | ThrownUndefined

text \<open>
  The \<open>for\<close> loop from \<open>attempt\<close> on.  \<open>fn k\<close> is how the \<open>k\<close>-th call of the wrapped
  function settles; \<open>slept\<close> collects the delays waited so far.  The result is the outcome
  with the delays waited, in order.
\<close>

function retryLoop ::
    "'e RequiredRetryOptions \<Rightarrow> (nat \<Rightarrow> 'e + 'a) \<Rightarrow> nat \<Rightarrow> 'e option \<Rightarrow> nat list
      \<Rightarrow> ('e, 'a) outcome \<times> nat list" where
  "retryLoop opts fn attempt lastError slept =
     (if attempt \<le> maxAttempts opts then
        (case fn attempt of
           Inr v \<Rightarrow> (Returned v, slept)
         | Inl e \<Rightarrow>
             if length (retryableErrors opts) > 0
                \<and> \<not> list_ex (\<lambda>ErrorClass. ErrorClass e) (retryableErrors opts)
             then (Thrown e, slept)
             else if attempt \<ge> maxAttempts opts then (Thrown e, slept)
             else retryLoop opts fn (attempt + 1) (Some e)
                    (slept @ [min (initialDelayMs opts * backoffMultiplier opts ^ (attempt - 1))
                                (maxDelayMs opts)]))
      else (case lastError of None \<Rightarrow> (ThrownUndefined, slept) | Some e \<Rightarrow> (Thrown e, slept)))"
  by pat_completeness auto
termination
  by (relation "measure (\<lambda>(opts, fn, attempt, lastError, slept). Suc (maxAttempts opts) - attempt)")
    auto

definition retryWithBackoff ::
    "(nat \<Rightarrow> 'e + 'a) \<Rightarrow> 'e RetryOptions \<Rightarrow> ('e, 'a) outcome \<times> nat list" where
  "retryWithBackoff fn options = retryLoop (mergeOptions defaultOptions options) fn 1 None []"

text \<open>The options the project's README gives for the \<open>@Retry\<close> decorator.\<close>

definition isQueryFailedError :: "store_error \<Rightarrow> bool" where
  "isQueryFailedError e = (e = QueryFailedError)"

definition readmeOptions :: "store_error RetryOptions" where
  "readmeOptions =
     \<lparr>opt_maxAttempts = Some 3, opt_initialDelayMs = Some 100, opt_maxDelayMs = Some 2000,
      opt_backoffMultiplier = Some 2, opt_retryableErrors = Some [isQueryFailedError]\<rparr>"

section \<open>The expiration consumer\<close>

text \<open>
  The channel is the list of calls made on it.  \<open>Nack m allUpTo requeue\<close> is
  \<open>channel.nack(m, allUpTo, requeue)\<close>.
\<close>

datatype 'm channel_call = Ack 'm | Nack 'm bool bool

record ('t, 'm) BatchMessage =
  data :: 't
  message :: 'm

record ('t, 'm) BatchProcessor =
  batch :: "('t, 'm) BatchMessage list"
  processing :: bool
  batchNumber :: nat
  channel :: "'m channel_call list"

record BatchProcessorOptions =
  batchSize :: nat
  flushIntervalMs :: nat

text \<open>\<open>BatchProcessor.flush\<close>; \<open>processFn\<close> tells how the processing promise settles.\<close>

definition flush ::
    "(('t, 'm) BatchMessage list \<Rightarrow> 'e + unit) \<Rightarrow> ('t, 'm) BatchProcessor
      \<Rightarrow> ('t, 'm) BatchProcessor" where
  "flush processFn bp =
     (if processing bp \<or> length (batch bp) = 0 then bp
      else
        (let currentBatch = batch bp;
             bp' = bp\<lparr>processing := True, batch := [], batchNumber := batchNumber bp + 1\<rparr>
         in (case processFn currentBatch of
               Inr _ \<Rightarrow>
                 bp'\<lparr>channel := channel bp' @ map (\<lambda>item. Ack (message item)) currentBatch,
                     processing := False\<rparr>
             | Inl _ \<Rightarrow>
                 bp'\<lparr>channel := channel bp'
                                  @ map (\<lambda>item. Nack (message item) False True) currentBatch,
                     processing := False\<rparr>)))"

definition addMessage ::
    "BatchProcessorOptions \<Rightarrow> (('t, 'm) BatchMessage list \<Rightarrow> 'e + unit) \<Rightarrow> 't \<Rightarrow> 'm
      \<Rightarrow> ('t, 'm) BatchProcessor \<Rightarrow> ('t, 'm) BatchProcessor" where
  "addMessage options processFn d m bp =
     (let bp' = bp\<lparr>batch := batch bp @ [\<lparr>data = d, message = m\<rparr>]\<rparr>
      in if length (batch bp') \<ge> batchSize options then flush processFn bp' else bp')"

text \<open>
  The processing function the batched consumer hands to its \<open>BatchProcessor\<close>:
  \<open>expire rid\<close> tells how \<open>expireReservation(rid)\<close> settles (\<open>Promise.allSettled\<close>); the
  payload of a message is the reservation id.
\<close>

datatype batch_error = BatchFailures nat

definition expireBatch ::
    "(nat \<Rightarrow> 'e + unit) \<Rightarrow> (nat, 'm) BatchMessage list \<Rightarrow> batch_error + unit" where
  "expireBatch expire items =
     (let results = map (\<lambda>item. expire (data item)) items;
          succeeded = length (filter (\<lambda>r. \<not> isl r) results);
          failed = length (filter isl results)
      in if failed > 0 then Inl (BatchFailures failed) else Inr ())"

definition newBatchProcessor :: "'m channel_call list \<Rightarrow> (nat, 'm) BatchProcessor" where
  "newBatchProcessor ch = \<lparr>batch = [], processing = False, batchNumber = 0, channel = ch\<rparr>"

definition consumerOptions :: BatchProcessorOptions where
  "consumerOptions = \<lparr>batchSize = 10, flushIntervalMs = 2000\<rparr>"

text \<open>The batched \<open>ReservationsConsumer.handleReservationExpire\<close>.\<close>

definition handleReservationExpire_batched ::
    "(nat \<Rightarrow> 'e + unit) \<Rightarrow> nat \<Rightarrow> 'm \<Rightarrow> (nat, 'm) BatchProcessor \<Rightarrow> (nat, 'm) BatchProcessor" where
  "handleReservationExpire_batched expire rid originalMsg bp =
     addMessage consumerOptions (expireBatch expire) rid originalMsg bp"

text \<open>The unbatched handler of src/reservations/reservations.consumer.ts.\<close>

definition handleReservationExpire ::
    "(nat \<Rightarrow> 'e + unit) \<Rightarrow> nat \<Rightarrow> 'm \<Rightarrow> 'm channel_call list \<Rightarrow> 'm channel_call list" where
  "handleReservationExpire expire rid originalMsg ch =
     (case expire rid of
        Inr _ \<Rightarrow> ch @ [Ack originalMsg]
      | Inl _ \<Rightarrow> ch @ [Nack originalMsg False True])"

section \<open>Consistency of seats, reservations and sales\<close>

definition pendingOn :: "db \<Rightarrow> nat \<Rightarrow> Reservation list" where
  "pendingOn s i = filter (\<lambda>r. seatId r = i \<and> status r = PENDING) (reservations s)"

definition confirmedOn :: "db \<Rightarrow> nat \<Rightarrow> Reservation list" where
  "confirmedOn s i = filter (\<lambda>r. seatId r = i \<and> status r = CONFIRMED) (reservations s)"

definition salesOf :: "db \<Rightarrow> nat \<Rightarrow> Sale list" where
  "salesOf s rid = filter (\<lambda>x. reservationId x = rid) (sales s)"

text \<open>The three seat clauses: what each seat status says about reservations and sales.\<close>

definition seatConsistent :: "db \<Rightarrow> Seat \<Rightarrow> bool" where
  "seatConsistent s seat =
     (case seat_status seat of
        AVAILABLE \<Rightarrow> pendingOn s (seat_id seat) = []
      | RESERVED \<Rightarrow> length (pendingOn s (seat_id seat)) = 1
      | SOLD \<Rightarrow>
          (case confirmedOn s (seat_id seat) of
             [r] \<Rightarrow> length (salesOf s (reservation_id r)) = 1
           | _ \<Rightarrow> False))"

definition consistent :: "db \<Rightarrow> bool" where
  "consistent s = (\<forall>seat \<in> set (seats s). seatConsistent s seat)"

text \<open>
  The constraints of the store itself: unique primary keys, keys drawn from the supply,
  and the foreign keys of the entities.
\<close>

definition pkUnique :: "db \<Rightarrow> bool" where
  "pkUnique s =
     (distinct (map seat_id (seats s)) \<and> distinct (map reservation_id (reservations s)))"

definition idsAllocated :: "db \<Rightarrow> bool" where
  "idsAllocated s =
     ((\<forall>r \<in> set (reservations s). reservation_id r < nextId s)
      \<and> (\<forall>x \<in> set (sales s). sale_id x < nextId s \<and> reservationId x < nextId s))"

definition foreignKeys :: "db \<Rightarrow> bool" where
  "foreignKeys s =
     ((\<forall>seat \<in> set (seats s). findSession s (sessionId seat) \<noteq> None)
      \<and> (\<forall>r \<in> set (reservations s). seatById s (seatId r) \<noteq> None)
      \<and> (\<forall>x \<in> set (sales s). seatById s (sale_seatId x) \<noteq> None))"

text \<open>A sale belongs to a confirmed reservation, a confirmed reservation has one sale.\<close>

definition salesMatch :: "db \<Rightarrow> bool" where
  "salesMatch s =
     ((\<forall>x \<in> set (sales s). \<forall>r \<in> set (reservations s).
          reservation_id r = reservationId x \<longrightarrow> status r = CONFIRMED)
      \<and> (\<forall>r \<in> set (reservations s).
            status r = CONFIRMED \<longrightarrow> length (salesOf s (reservation_id r)) = 1))"

text \<open>The seat clauses with the reservations each status excludes.\<close>

definition seatStrict :: "db \<Rightarrow> Seat \<Rightarrow> bool" where
  "seatStrict s seat =
     (case seat_status seat of
        AVAILABLE \<Rightarrow> pendingOn s (seat_id seat) = [] \<and> confirmedOn s (seat_id seat) = []
      | RESERVED \<Rightarrow>
          length (pendingOn s (seat_id seat)) = 1 \<and> confirmedOn s (seat_id seat) = []
      | SOLD \<Rightarrow>
          pendingOn s (seat_id seat) = [] \<and> length (confirmedOn s (seat_id seat)) = 1)"

definition storeInvariant :: "db \<Rightarrow> bool" where
  "storeInvariant s =
     (pkUnique s \<and> idsAllocated s \<and> foreignKeys s \<and> salesMatch s
      \<and> (\<forall>seat \<in> set (seats s). seatStrict s seat))"

text \<open>How many rows differ between a table before and after a call.\<close>

definition rowsChanged :: "'a list \<Rightarrow> 'a list \<Rightarrow> nat" where
  "rowsChanged xs ys = length (filter (\<lambda>(x, y). x \<noteq> y) (zip xs ys))"

section \<open>Notions used in the statements\<close>

text \<open>A seat number that the seat query finds with status \<open>AVAILABLE\<close>.\<close>

definition available :: "db \<Rightarrow> nat \<Rightarrow> string \<Rightarrow> bool" where
  "available s sid label =
     (case lockSeat s sid label of None \<Rightarrow> False | Some seat \<Rightarrow> seat_status seat = AVAILABLE)"

text \<open>A store as seat provisioning leaves it: seats only, all \<open>AVAILABLE\<close>.\<close>

definition provisioned :: "db \<Rightarrow> bool" where
  "provisioned s =
     (reservations s = [] \<and> sales s = [] \<and> distinct (map seat_id (seats s))
      \<and> (\<forall>seat \<in> set (seats s). seat_status seat = AVAILABLE
            \<and> findSession s (sessionId seat) \<noteq> None))"

text \<open>The retry test of \<open>retryWithBackoff\<close> and the delay it waits after a failed attempt.\<close>

definition retryable :: "'e RequiredRetryOptions \<Rightarrow> 'e \<Rightarrow> bool" where
  "retryable opts e =
     (length (retryableErrors opts) = 0 \<or> list_ex (\<lambda>ErrorClass. ErrorClass e) (retryableErrors opts))"

definition delayAfter :: "'e RequiredRetryOptions \<Rightarrow> nat \<Rightarrow> nat" where
  "delayAfter opts attempt =
     min (initialDelayMs opts * backoffMultiplier opts ^ (attempt - 1)) (maxDelayMs opts)"

text \<open>
  What the confirmation loop relies on for the rows it was given: distinct pending
  reservations of the store, each with its seat.
\<close>

definition groupReady :: "db \<Rightarrow> (Reservation \<times> Seat \<times> Session) list \<Rightarrow> bool" where
  "groupReady s ms =
     (distinct (map (\<lambda>m. reservation_id (fst m)) ms)
      \<and> (\<forall>m \<in> set ms. fst m \<in> set (reservations s) \<and> status (fst m) = PENDING
            \<and> fst (snd m) \<in> set (seats s) \<and> seat_id (fst (snd m)) = seatId (fst m)))"

text \<open>The sale the loop inserts for a group member under key \<open>i\<close>, and those for a whole group.\<close>

definition mkSale :: "int \<Rightarrow> int \<Rightarrow> nat \<Rightarrow> Reservation \<times> Seat \<times> Session \<Rightarrow> Sale" where
  "mkSale paid dbNow i m =
     \<lparr>sale_id = i, sale_seatId = seat_id (fst (snd m)), sale_userId = userId (fst m),
      reservationId = reservation_id (fst m), amount = ticketPrice (snd (snd m)),
      paidAt = paid, sale_createdAt = dbNow\<rparr>"

fun newSalesFrom :: "int \<Rightarrow> int \<Rightarrow> nat \<Rightarrow> (Reservation \<times> Seat \<times> Session) list \<Rightarrow> Sale list" where
  "newSalesFrom paid dbNow i [] = []"
| "newSalesFrom paid dbNow i (m # ms) = mkSale paid dbNow i m # newSalesFrom paid dbNow (Suc i) ms"

section \<open>Example stores and requests\<close>

text \<open>
  One session with seats A1, A2, A3; \<open>heldStore\<close> is \<open>store0\<close> after user u1 held A1 and A2
  at clock value 1000 with a TTL of 30 s, \<open>confirmedStore\<close> is \<open>heldStore\<close> after that hold was
  paid.
\<close>

definition session1 :: Session where
  "session1 = \<lparr>session_id = 1, movieName = ''Film'', startTime = 5000000,
               roomNumber = ''R1'', ticketPrice = 2500\<rparr>"

definition mkSeat :: "nat \<Rightarrow> string \<Rightarrow> Seat" where
  "mkSeat i label = \<lparr>seat_id = i, seatNumber = label, seat_status = AVAILABLE, sessionId = 1\<rparr>"

definition store0 :: db where
  "store0 = \<lparr>sessions = [session1],
             seats = [mkSeat 10 ''A1'', mkSeat 11 ''A2'', mkSeat 12 ''A3''],
             reservations = [], sales = [], nextId = 100\<rparr>"

definition heldStore :: db where
  "heldStore =
     \<lparr>sessions = [session1],
      seats = [(mkSeat 10 ''A1'')\<lparr>seat_status := RESERVED\<rparr>,
               (mkSeat 11 ''A2'')\<lparr>seat_status := RESERVED\<rparr>, mkSeat 12 ''A3''],
      reservations =
        [\<lparr>reservation_id = 100, seatId = 10, userId = ''u1'', status = PENDING,
          expiresAt = 31000, createdAt = 1001\<rparr>,
         \<lparr>reservation_id = 101, seatId = 11, userId = ''u1'', status = PENDING,
          expiresAt = 31000, createdAt = 1001\<rparr>],
      sales = [], nextId = 102\<rparr>"

definition dupDto :: CreateReservationDto where
  "dupDto = \<lparr>cr_sessionId = 1, seatNumbers = [''Z9'', ''Z9''], cr_userId = ''u1''\<rparr>"

definition partialDto :: CreateReservationDto where
  "partialDto = \<lparr>cr_sessionId = 1, seatNumbers = [''B9'', ''A3''], cr_userId = ''u2''\<rparr>"

definition absentTwiceDto :: CreateReservationDto where
  "absentTwiceDto = \<lparr>cr_sessionId = 1, seatNumbers = [''Z9'', ''A3'', ''A3''], cr_userId = ''u1''\<rparr>"

definition holdA1 :: CreateReservationDto where
  "holdA1 = \<lparr>cr_sessionId = 1, seatNumbers = [''A1''], cr_userId = ''u1''\<rparr>"

definition holdA2 :: CreateReservationDto where
  "holdA2 = \<lparr>cr_sessionId = 1, seatNumbers = [''A2''], cr_userId = ''u1''\<rparr>"

definition firstHoldStore :: db where
  "firstHoldStore =
     \<lparr>sessions = [session1],
      seats = [(mkSeat 10 ''A1'')\<lparr>seat_status := RESERVED\<rparr>, mkSeat 11 ''A2'', mkSeat 12 ''A3''],
      reservations =
        [\<lparr>reservation_id = 100, seatId = 10, userId = ''u1'', status = PENDING,
          expiresAt = 31000, createdAt = 1001\<rparr>],
      sales = [], nextId = 101\<rparr>"

definition confirm100 :: ConfirmPaymentDto where
  "confirm100 = \<lparr>cp_reservationId = 100, cp_userId = ''u1''\<rparr>"

definition alwaysConflict :: "nat \<Rightarrow> store_error + unit" where
  "alwaysConflict k = Inl QueryFailedError"

definition notFoundFirst :: "nat \<Rightarrow> store_error + unit" where
  "notFoundFirst k = Inl (ServiceError (SessionNotFound 7))"

definition noOptions :: "store_error RetryOptions" where
  "noOptions =
     \<lparr>opt_maxAttempts = None, opt_initialDelayMs = None, opt_maxDelayMs = None,
      opt_backoffMultiplier = None, opt_retryableErrors = None\<rparr>"

text \<open>A store that rejects exactly its \<open>i\<close>-th operation, and one that rejects none.\<close>

definition conflictAt :: "nat \<Rightarrow> nat \<Rightarrow> bool" where
  "conflictAt i k = (k = i)"

definition neverFails :: "nat \<Rightarrow> bool" where
  "neverFails k = False"

definition mixedExpire :: "nat \<Rightarrow> store_error + unit" where
  "mixedExpire rid = (if rid = 200 then Inl QueryFailedError else Inr ())"

definition mixedBatch :: "(nat, string) BatchProcessor" where
  "mixedBatch =
     \<lparr>batch = [\<lparr>data = 100, message = ''m1''\<rparr>, \<lparr>data = 200, message = ''m2''\<rparr>],
      processing = False, batchNumber = 0, channel = []\<rparr>"

definition tornStore :: db where
  "tornStore =
     \<lparr>sessions = [session1],
      seats = [(mkSeat 10 ''A1'')\<lparr>seat_status := SOLD\<rparr>],
      reservations =
        [\<lparr>reservation_id = 200, seatId = 10, userId = ''u0'', status = CONFIRMED,
          expiresAt = 100, createdAt = 1\<rparr>,
         \<lparr>reservation_id = 201, seatId = 10, userId = ''u1'', status = PENDING,
          expiresAt = 100, createdAt = 1\<rparr>,
         \<lparr>reservation_id = 202, seatId = 10, userId = ''u2'', status = PENDING,
          expiresAt = 100, createdAt = 1\<rparr>],
      sales = [\<lparr>sale_id = 300, sale_seatId = 10, sale_userId = ''u0'', reservationId = 200,
                amount = 2500, paidAt = 50, sale_createdAt = 50\<rparr>],
      nextId = 301\<rparr>"

definition confirmedStore :: db where
  "confirmedStore =
     \<lparr>sessions = [session1],
      seats = [(mkSeat 10 ''A1'')\<lparr>seat_status := SOLD\<rparr>,
               (mkSeat 11 ''A2'')\<lparr>seat_status := SOLD\<rparr>, mkSeat 12 ''A3''],
      reservations =
        [\<lparr>reservation_id = 100, seatId = 10, userId = ''u1'', status = CONFIRMED,
          expiresAt = 31000, createdAt = 1001\<rparr>,
         \<lparr>reservation_id = 101, seatId = 11, userId = ''u1'', status = CONFIRMED,
          expiresAt = 31000, createdAt = 1001\<rparr>],
      sales =
        [\<lparr>sale_id = 102, sale_seatId = 10, sale_userId = ''u1'', reservationId = 100,
          amount = 2500, paidAt = 2001, sale_createdAt = 2002\<rparr>,
         \<lparr>sale_id = 103, sale_seatId = 11, sale_userId = ''u1'', reservationId = 101,
          amount = 2500, paidAt = 2001, sale_createdAt = 2002\<rparr>],
      nextId = 104\<rparr>"

definition sale100 :: SaleResponseDto where
  "sale100 =
     \<lparr>sr_id = 102, sr_seatId = 10, sr_seatNumber = ''A1'', sr_userId = ''u1'',
      sr_reservationId = 100, sr_amount = 2500, sr_movieName = ''Film'',
      sr_sessionStartTime = 5000000, sr_roomNumber = ''R1'', sr_paidAt = 2001,
      sr_createdAt = 2002\<rparr>"

text \<open>
  \<open>soldA1Store\<close> is \<open>firstHoldStore\<close> after its hold was paid at clock value 1000, and
  \<open>replayStore\<close> is \<open>soldA1Store\<close> after user u1 held A2 at that same clock value.
\<close>

definition soldA1Store :: db where
  "soldA1Store =
     \<lparr>sessions = [session1],
      seats = [(mkSeat 10 ''A1'')\<lparr>seat_status := SOLD\<rparr>, mkSeat 11 ''A2'', mkSeat 12 ''A3''],
      reservations =
        [\<lparr>reservation_id = 100, seatId = 10, userId = ''u1'', status = CONFIRMED,
          expiresAt = 31000, createdAt = 1001\<rparr>],
      sales =
        [\<lparr>sale_id = 101, sale_seatId = 10, sale_userId = ''u1'', reservationId = 100,
          amount = 2500, paidAt = 1000, sale_createdAt = 1001\<rparr>],
      nextId = 102\<rparr>"

definition replayStore :: db where
  "replayStore =
     \<lparr>sessions = [session1],
      seats = [(mkSeat 10 ''A1'')\<lparr>seat_status := SOLD\<rparr>,
               (mkSeat 11 ''A2'')\<lparr>seat_status := RESERVED\<rparr>, mkSeat 12 ''A3''],
      reservations =
        [\<lparr>reservation_id = 100, seatId = 10, userId = ''u1'', status = CONFIRMED,
          expiresAt = 31000, createdAt = 1001\<rparr>,
         \<lparr>reservation_id = 102, seatId = 11, userId = ''u1'', status = PENDING,
          expiresAt = 31000, createdAt = 1001\<rparr>],
      sales =
        [\<lparr>sale_id = 101, sale_seatId = 10, sale_userId = ''u1'', reservationId = 100,
          amount = 2500, paidAt = 1000, sale_createdAt = 1001\<rparr>],
      nextId = 103\<rparr>"

definition saleA1 :: SaleResponseDto where
  "saleA1 =
     \<lparr>sr_id = 101, sr_seatId = 10, sr_seatNumber = ''A1'', sr_userId = ''u1'',
      sr_reservationId = 100, sr_amount = 2500, sr_movieName = ''Film'',
      sr_sessionStartTime = 5000000, sr_roomNumber = ''R1'', sr_paidAt = 1000,
      sr_createdAt = 1001\<rparr>"

definition orphanStore :: db where
  "orphanStore = confirmedStore\<lparr>sales := []\<rparr>"

definition res100 :: Reservation where
  "res100 = \<lparr>reservation_id = 100, seatId = 10, userId = ''u1'', status = PENDING,
              expiresAt = 31000, createdAt = 1001\<rparr>"

definition res101 :: Reservation where
  "res101 = \<lparr>reservation_id = 101, seatId = 11, userId = ''u1'', status = PENDING,
              expiresAt = 31000, createdAt = 1001\<rparr>"

section \<open>Lists and queries\<close>

lemma find_map_upd: "find P (map f xs) = map_option f (find (\<lambda>x. P (f x)) xs)"
  by (induction xs) auto

lemma find_cong_set: "(\<And>x. x \<in> set xs \<Longrightarrow> P x = Q x) \<Longrightarrow> find P xs = find Q xs"
  by (induction xs) auto

lemma find_distinct_key:
  "distinct (map key xs) \<Longrightarrow> x \<in> set xs \<Longrightarrow> find (\<lambda>y. key y = key x) xs = Some x"
  by (induction xs) (auto simp: rev_image_eqI)

lemma find_unique_key:
  assumes "distinct (map key xs)" "x \<in> set xs" "P x" "\<forall>y. P y \<longrightarrow> key y = key x"
  shows "find P xs = Some x"
  using assms(1,2)
proof (induction xs)
  case Nil
  then show ?case by simp
next
  case (Cons a xs)
  show ?case
  proof (cases "a = x")
    case True
    with assms(3) show ?thesis by simp
  next
    case False
    with Cons.prems have x: "x \<in> set xs" and "key a \<noteq> key x" and d: "distinct (map key xs)"
      by (auto simp: image_iff)
    with assms(4) have "\<not> P a" by blast
    with Cons.IH[OF d x] show ?thesis by simp
  qed
qed

lemma getOne_filter_map_filter:
  "getOne (filter Q (List.map_filter f xs)) =
     Option.bind (find (\<lambda>x. case f x of None \<Rightarrow> False | Some y \<Rightarrow> Q y) xs) f"
  by (induction xs) (auto simp: getOne_def split: option.splits)

lemma set_map_filter_iff: "y \<in> set (List.map_filter f xs) \<longleftrightarrow> (\<exists>x \<in> set xs. f x = Some y)"
  by (induction xs) (auto split: option.splits)

lemma seatById_Some: "seatById s i = Some seat \<Longrightarrow> seat \<in> set (seats s) \<and> seat_id seat = i"
  by (auto simp: seatById_def find_Some_iff)

lemma seatById_distinct:
  "distinct (map seat_id (seats s)) \<Longrightarrow> seat \<in> set (seats s) \<Longrightarrow> seatById s (seat_id seat) = Some seat"
  unfolding seatById_def by (rule find_distinct_key)

lemma findSession_Some:
  "findSession s i = Some x \<Longrightarrow> x \<in> set (sessions s) \<and> session_id x = i"
  by (auto simp: findSession_def find_Some_iff)

lemma lockReservationWithSeat_find:
  "lockReservationWithSeat s rid =
     Option.bind (find (\<lambda>r. reservation_id r = rid \<and> seatById s (seatId r) \<noteq> None) (reservations s))
       (joinSeat s)"
proof -
  have "(\<lambda>x. case joinSeat s x of None \<Rightarrow> False | Some (r, seat) \<Rightarrow> reservation_id r = rid)
        = (\<lambda>r. reservation_id r = rid \<and> seatById s (seatId r) \<noteq> None)"
    by (auto simp: joinSeat_def fun_eq_iff split: option.splits)
  then show ?thesis
    by (simp add: lockReservationWithSeat_def getOne_filter_map_filter)
qed

lemma lockReservationWithSeat_Some:
  assumes "lockReservationWithSeat s rid = Some (r, seat)"
  shows "r \<in> set (reservations s)" "reservation_id r = rid" "seatById s (seatId r) = Some seat"
  using assms
  by (auto simp: lockReservationWithSeat_find joinSeat_def find_Some_iff Option.bind_eq_Some_conv)

lemma seatById_saveSeat:
  "seatById (saveSeat seat s) i =
     map_option (\<lambda>x. if seat_id x = seat_id seat then seat else x) (seatById s i)"
proof -
  have "(\<lambda>x. seat_id (if seat_id x = seat_id seat then seat else x) = i) = (\<lambda>x. seat_id x = i)"
    by auto
  then show ?thesis by (simp add: seatById_def saveSeat_def find_map_upd)
qed

lemma seatById_saveReservation [simp]: "seatById (saveReservation r s) i = seatById s i"
  by (simp add: seatById_def saveReservation_def)

section \<open>expireReservation\<close>

lemma expire_effect:
  assumes l: "lockReservationWithSeat s rid = Some (r, seat)"
    and p: "status r = PENDING" and t: "expiresAt r < now"
  shows "expireReservation rid now s =
           saveReservation (r\<lparr>status := EXPIRED\<rparr>) (saveSeat (seat\<lparr>seat_status := AVAILABLE\<rparr>) s)"
    and "lockReservationWithSeat (expireReservation rid now s) rid =
           Some (r\<lparr>status := EXPIRED\<rparr>, seat\<lparr>seat_status := AVAILABLE\<rparr>)"
proof -
  let ?r = "r\<lparr>status := EXPIRED\<rparr>" and ?seat = "seat\<lparr>seat_status := AVAILABLE\<rparr>"
  let ?s = "saveReservation ?r (saveSeat ?seat s)"
  show e: "expireReservation rid now s = ?s"
    using l p t by (simp add: expireReservation_def)
  from lockReservationWithSeat_Some[OF l]
  have rin: "r \<in> set (reservations s)" and rid: "reservation_id r = rid"
    and sb: "seatById s (seatId r) = Some seat" by auto
  from seatById_Some[OF sb] have sid: "seat_id seat = seatId r" by simp
  have sb': "seatById ?s (seatId r) = Some ?seat"
    using sb sid by (simp add: seatById_saveSeat)
  let ?upd = "\<lambda>x. if reservation_id x = reservation_id ?r then ?r else x"
  have rs: "reservations ?s = map ?upd (reservations s)"
    by (simp add: saveReservation_def saveSeat_def)
  have "find (\<lambda>x. reservation_id (?upd x) = rid \<and> seatById ?s (seatId (?upd x)) \<noteq> None) (reservations s)
        = find (\<lambda>x. reservation_id x = rid) (reservations s)"
    by (rule find_cong_set) (use rid sb' in auto)
  moreover obtain r0 where "find (\<lambda>x. reservation_id x = rid) (reservations s) = Some r0"
    "reservation_id r0 = rid"
    using rin rid by (cases "find (\<lambda>x. reservation_id x = rid) (reservations s)")
      (auto simp: find_None_iff find_Some_iff)
  ultimately have "lockReservationWithSeat ?s rid = Some (?r, ?seat)"
    using sb' rid by (simp add: lockReservationWithSeat_find rs find_map_upd joinSeat_def)
  with e show "lockReservationWithSeat (expireReservation rid now s) rid = Some (?r, ?seat)"
    by simp
qed

lemma expire_noop:
  "\<not> (\<exists>r seat. lockReservationWithSeat s rid = Some (r, seat) \<and> status r = PENDING \<and> expiresAt r < now)
   \<Longrightarrow> expireReservation rid now s = s"
  by (auto simp: expireReservation_def split: option.splits)

lemma expire_twice:
  "expireReservation rid t2 (expireReservation rid t1 s) = expireReservation rid (max t1 t2) s"
proof (cases "lockReservationWithSeat s rid")
  case None
  then show ?thesis by (simp add: expireReservation_def)
next
  case (Some p)
  obtain r seat where p: "p = (r, seat)" by (cases p)
  show ?thesis
  proof (cases "status r = PENDING")
    case False
    then show ?thesis using Some p by (simp add: expireReservation_def)
  next
    case pend: True
    show ?thesis
    proof (cases "expiresAt r < t1")
      case True
      have l: "lockReservationWithSeat s rid = Some (r, seat)" using Some p by simp
      from expire_effect[OF l pend True]
      have "expireReservation rid t2 (expireReservation rid t1 s) = expireReservation rid t1 s"
        by (simp add: expireReservation_def[of rid t2])
      moreover have "expireReservation rid (max t1 t2) s = expireReservation rid t1 s"
        using l pend True by (simp add: expireReservation_def)
      ultimately show ?thesis by simp
    next
      case False
      then have "expireReservation rid t1 s = s"
        using Some p pend by (simp add: expireReservation_def)
      moreover have "expireReservation rid (max t1 t2) s = expireReservation rid t2 s"
        using Some p pend False by (auto simp add: expireReservation_def)
      ultimately show ?thesis by simp
    qed
  qed
qed

lemma expire_funpow: "((expireReservation rid now) ^^ Suc n) s = expireReservation rid now s"
  by (induction n) (simp_all add: expire_twice)

lemma rowsChanged_map: "rowsChanged xs (map f xs) = length (filter (\<lambda>x. x \<noteq> f x) xs)"
  by (induction xs) (auto simp: rowsChanged_def)

lemma distinct_key_count:
  "distinct (map key xs) \<Longrightarrow> length (filter (\<lambda>x. key x = k) xs) \<le> Suc 0"
proof (induction xs)
  case Nil
  then show ?case by simp
next
  case (Cons a xs)
  show ?case
  proof (cases "key a = k")
    case True
    with Cons.prems have "\<forall>x \<in> set xs. key x \<noteq> k" by (auto simp: image_iff)
    then have "filter (\<lambda>x. key x = k) xs = []" by (simp add: filter_empty_conv)
    with True show ?thesis by simp
  next
    case False
    with Cons show ?thesis by simp
  qed
qed

lemma length_filter_mono:
  "(\<And>x. P x \<Longrightarrow> Q x) \<Longrightarrow> length (filter P xs) \<le> length (filter Q xs)"
  by (induction xs) auto

lemma rowsChanged_same [simp]: "rowsChanged xs xs = 0"
  using rowsChanged_map[of xs "\<lambda>x. x"] by simp

lemma distinct_key_eq:
  "distinct (map key xs) \<Longrightarrow> x \<in> set xs \<Longrightarrow> y \<in> set xs \<Longrightarrow> key x = key y \<Longrightarrow> x = y"
  by (auto simp: distinct_map inj_on_def)

lemma update_distinct_row:
  assumes "distinct (map key xs)" "r \<in> set xs"
  shows "map (\<lambda>x. if key x = key r then f r else x) xs = map (\<lambda>x. if key x = key r then f x else x) xs"
  using distinct_key_eq[OF assms(1) _ assms(2)] by (intro map_cong) auto

text \<open>
  With unique primary keys and valid foreign keys the reservation query of
  \<open>expireReservation\<close> finds every reservation of the table, together with its seat.
\<close>

lemma lockReservationWithSeat_found:
  assumes "pkUnique s" "foreignKeys s" "r \<in> set (reservations s)"
  shows "\<exists>seat. seatById s (seatId r) = Some seat
            \<and> lockReservationWithSeat s (reservation_id r) = Some (r, seat)"
proof -
  from assms(2,3) obtain seat where sb: "seatById s (seatId r) = Some seat"
    by (auto simp: foreignKeys_def)
  from assms(1) have d: "distinct (map reservation_id (reservations s))"
    by (simp add: pkUnique_def)
  have "find (\<lambda>x. reservation_id x = reservation_id r \<and> seatById s (seatId x) \<noteq> None)
          (reservations s) = Some r"
  proof (rule find_unique_key[OF d assms(3)])
    show "reservation_id r = reservation_id r \<and> seatById s (seatId r) \<noteq> None"
      using sb by simp
  next
    show "\<forall>y. reservation_id y = reservation_id r \<and> seatById s (seatId y) \<noteq> None
        \<longrightarrow> reservation_id y = reservation_id r"
      by blast
  qed
  with sb show ?thesis by (simp add: lockReservationWithSeat_find joinSeat_def)
qed

lemma lockReservationWithSeat_member:
  "lockReservationWithSeat s rid = Some (r, seat) \<Longrightarrow>
     r \<in> set (reservations s) \<and> reservation_id r = rid"
  by (simp add: lockReservationWithSeat_Some)

text \<open>
  Claim C3.  On a store with unique primary keys and valid foreign keys,
  \<open>expireReservation\<close> sets the status of the reservation with the given id to \<open>EXPIRED\<close>
  and the status of its seat to \<open>AVAILABLE\<close>, and writes nothing else, when that
  reservation is in the table, is \<open>PENDING\<close> and \<open>now\<close> is strictly after its \<open>expiresAt\<close>;
  when no reservation of the table has the id, is \<open>PENDING\<close> and is overdue, the store is
  left as it was; and calling it again, at the same or any other time, gives what one call
  gives.
\<close>

theorem expireReservation_idempotent:
  assumes "pkUnique s" and "foreignKeys s"
  shows "(\<forall>r \<in> set (reservations s).
        reservation_id r = rid \<and> status r = PENDING \<and> expiresAt r < now \<longrightarrow>
          reservations (expireReservation rid now s) =
            map (\<lambda>x. if reservation_id x = rid then x\<lparr>status := EXPIRED\<rparr> else x) (reservations s)
          \<and> seats (expireReservation rid now s) =
              map (\<lambda>x. if seat_id x = seatId r then x\<lparr>seat_status := AVAILABLE\<rparr> else x) (seats s)
          \<and> sessions (expireReservation rid now s) = sessions s
          \<and> sales (expireReservation rid now s) = sales s
          \<and> nextId (expireReservation rid now s) = nextId s
          \<and> find (\<lambda>x. reservation_id x = rid) (reservations (expireReservation rid now s))
              = Some (r\<lparr>status := EXPIRED\<rparr>)
          \<and> (\<exists>seat. seatById s (seatId r) = Some seat
                \<and> seatById (expireReservation rid now s) (seatId r)
                    = Some (seat\<lparr>seat_status := AVAILABLE\<rparr>)))
   \<and> (\<not> (\<exists>r \<in> set (reservations s).
             reservation_id r = rid \<and> status r = PENDING \<and> expiresAt r < now) \<longrightarrow>
        expireReservation rid now s = s)
   \<and> ((expireReservation rid now) ^^ Suc n) s = expireReservation rid now s
   \<and> expireReservation rid later (expireReservation rid now s) =
       expireReservation rid (max now later) s"
proof (intro conjI ballI impI)
  fix r
  assume rin: "r \<in> set (reservations s)"
    and h: "reservation_id r = rid \<and> status r = PENDING \<and> expiresAt r < now"
  from lockReservationWithSeat_found[OF assms rin] h obtain seat where
    sb: "seatById s (seatId r) = Some seat"
    and l: "lockReservationWithSeat s rid = Some (r, seat)" by auto
  from h have p: "status r = PENDING" and t: "expiresAt r < now" and rid: "reservation_id r = rid"
    by simp_all
  let ?s' = "expireReservation rid now s"
  note e = expire_effect[OF l p t]
  from seatById_Some[OF sb] have sin: "seat \<in> set (seats s)" and sid: "seat_id seat = seatId r"
    by auto
  from assms(1) have dr: "distinct (map reservation_id (reservations s))"
    and ds: "distinct (map seat_id (seats s))" by (auto simp: pkUnique_def)
  show rs: "reservations ?s' =
      map (\<lambda>x. if reservation_id x = rid then x\<lparr>status := EXPIRED\<rparr> else x) (reservations s)"
    using update_distinct_row[OF dr rin, of "\<lambda>x. x\<lparr>status := EXPIRED\<rparr>"] rid
    by (simp add: e(1) saveReservation_def saveSeat_def)
  show "seats ?s' =
      map (\<lambda>x. if seat_id x = seatId r then x\<lparr>seat_status := AVAILABLE\<rparr> else x) (seats s)"
    using update_distinct_row[OF ds sin, of "\<lambda>x. x\<lparr>seat_status := AVAILABLE\<rparr>"] sid
    by (simp add: e(1) saveReservation_def saveSeat_def)
  show "sessions ?s' = sessions s" "sales ?s' = sales s" "nextId ?s' = nextId s"
    by (simp_all add: e(1) saveReservation_def saveSeat_def)
  from lockReservationWithSeat_Some[OF e(2)]
  have m: "r\<lparr>status := EXPIRED\<rparr> \<in> set (reservations ?s')"
    and sb': "seatById ?s' (seatId r) = Some (seat\<lparr>seat_status := AVAILABLE\<rparr>)"
    by simp_all
  have "distinct (map reservation_id (reservations ?s'))"
    using dr by (simp add: rs comp_def if_distrib[of reservation_id] cong: if_cong)
  from find_distinct_key[OF this m]
  show "find (\<lambda>x. reservation_id x = rid) (reservations ?s') = Some (r\<lparr>status := EXPIRED\<rparr>)"
    by (simp add: rid)
  from sb sb' show "\<exists>seat. seatById s (seatId r) = Some seat
                \<and> seatById ?s' (seatId r) = Some (seat\<lparr>seat_status := AVAILABLE\<rparr>)"
    by blast
next
  assume n: "\<not> (\<exists>r \<in> set (reservations s).
             reservation_id r = rid \<and> status r = PENDING \<and> expiresAt r < now)"
  have "\<not> (\<exists>r seat. lockReservationWithSeat s rid = Some (r, seat) \<and> status r = PENDING
            \<and> expiresAt r < now)"
    using n lockReservationWithSeat_member[of s rid] by blast
  then show "expireReservation rid now s = s" by (rule expire_noop)
next
  show "((expireReservation rid now) ^^ Suc n) s = expireReservation rid now s"
    by (rule expire_funpow)
next
  show "expireReservation rid later (expireReservation rid now s) =
       expireReservation rid (max now later) s"
    by (rule expire_twice)
qed

lemma heldStore_lock:
  "lockReservationWithSeat heldStore 100 =
    Some (\<lparr>reservation_id = 100, seatId = 10, userId = ''u1'', status = PENDING,
          expiresAt = 31000, createdAt = 1001\<rparr>, (mkSeat 10 ''A1'')\<lparr>seat_status := RESERVED\<rparr>)"
  by (simp add: lockReservationWithSeat_def heldStore_def joinSeat_def seatById_def mkSeat_def getOne_def)

lemma pkUnique_heldStore: "pkUnique heldStore"
  by (simp add: pkUnique_def heldStore_def mkSeat_def)

lemma foreignKeys_heldStore: "foreignKeys heldStore"
  by code_simp

theorem expireReservation_idempotent_witness:
  "pkUnique heldStore \<and> foreignKeys heldStore
   \<and> res101 \<in> set (reservations heldStore)
   \<and> reservation_id res101 = 101 \<and> status res101 = PENDING \<and> expiresAt res101 < 31001
   \<and> reservations (expireReservation 101 31001 heldStore) = [res100, res101\<lparr>status := EXPIRED\<rparr>]
   \<and> seats (expireReservation 101 31001 heldStore) =
        [(mkSeat 10 ''A1'')\<lparr>seat_status := RESERVED\<rparr>, mkSeat 11 ''A2'', mkSeat 12 ''A3'']
   \<and> expireReservation 101 31000 heldStore = heldStore
   \<and> expireReservation 101 31001 (expireReservation 101 31001 heldStore)
       = expireReservation 101 31001 heldStore"
proof -
  note idem = expireReservation_idempotent[OF pkUnique_heldStore foreignKeys_heldStore]
  have m: "res101 \<in> set (reservations heldStore)" by (simp add: res101_def heldStore_def)
  have h: "reservation_id res101 = 101 \<and> status res101 = PENDING \<and> expiresAt res101 < 31001"
    by (simp add: res101_def)
  from idem[of 101 31001 0 31001] m h
  have "reservations (expireReservation 101 31001 heldStore) =
          map (\<lambda>x. if reservation_id x = 101 then x\<lparr>status := EXPIRED\<rparr> else x) (reservations heldStore)
        \<and> seats (expireReservation 101 31001 heldStore) =
          map (\<lambda>x. if seat_id x = seatId res101 then x\<lparr>seat_status := AVAILABLE\<rparr> else x)
            (seats heldStore)"
    by blast
  then have a: "reservations (expireReservation 101 31001 heldStore) = [res100, res101\<lparr>status := EXPIRED\<rparr>]
      \<and> seats (expireReservation 101 31001 heldStore) =
        [(mkSeat 10 ''A1'')\<lparr>seat_status := RESERVED\<rparr>, mkSeat 11 ''A2'', mkSeat 12 ''A3'']"
    by (simp add: heldStore_def res100_def res101_def mkSeat_def)
  have "\<not> (\<exists>r \<in> set (reservations heldStore).
             reservation_id r = 101 \<and> status r = PENDING \<and> expiresAt r < 31000)"
    by (simp add: heldStore_def)
  with idem[of 101 31000 0 31000]
  have b: "expireReservation 101 31000 heldStore = heldStore" by blast
  from idem[of 101 31001 0 31001]
  have c: "expireReservation 101 31001 (expireReservation 101 31001 heldStore)
       = expireReservation 101 31001 heldStore" by simp
  from pkUnique_heldStore foreignKeys_heldStore m h a b c show ?thesis by simp
qed

text \<open>
  Claim C10.  One call of \<open>expireReservation\<close> changes at most one reservation row (the
  named one, whose status becomes \<open>EXPIRED\<close>) and at most one seat row (the seat of that
  reservation, whose status becomes \<open>AVAILABLE\<close>); every other reservation and seat,
  every sale and every session is left as it was, whichever path the call takes.
\<close>

theorem expireReservation_frame:
  assumes pk: "pkUnique s" and s': "s' = expireReservation rid now s"
  shows "sessions s' = sessions s \<and> sales s' = sales s \<and> nextId s' = nextId s
    \<and> length (reservations s') = length (reservations s)
    \<and> length (seats s') = length (seats s)
    \<and> rowsChanged (reservations s) (reservations s') \<le> 1
    \<and> rowsChanged (seats s) (seats s') \<le> 1
    \<and> (\<forall>i < length (reservations s).
          reservations s' ! i = reservations s ! i
          \<or> reservation_id (reservations s ! i) = rid
            \<and> reservations s' ! i = (reservations s ! i)\<lparr>status := EXPIRED\<rparr>)
    \<and> (\<forall>i < length (seats s).
          seats s' ! i = seats s ! i
          \<or> (\<exists>r \<in> set (reservations s). reservation_id r = rid \<and> seatId r = seat_id (seats s ! i))
            \<and> seats s' ! i = (seats s ! i)\<lparr>seat_status := AVAILABLE\<rparr>)"
proof (cases "\<exists>r seat. lockReservationWithSeat s rid = Some (r, seat) \<and> status r = PENDING
            \<and> expiresAt r < now")
  case False
  then have "s' = s" using s' by (simp add: expire_noop)
  then show ?thesis by simp
next
  case True
  then obtain r seat where l: "lockReservationWithSeat s rid = Some (r, seat)"
    and p: "status r = PENDING" and t: "expiresAt r < now" by blast
  from lockReservationWithSeat_Some[OF l]
  have rin: "r \<in> set (reservations s)" and rid: "reservation_id r = rid"
    and sb: "seatById s (seatId r) = Some seat" by auto
  from seatById_Some[OF sb] have sin: "seat \<in> set (seats s)" and sid: "seat_id seat = seatId r"
    by auto
  from pk have dr: "distinct (map reservation_id (reservations s))"
    and ds: "distinct (map seat_id (seats s))" by (auto simp: pkUnique_def)
  have e: "s' = saveReservation (r\<lparr>status := EXPIRED\<rparr>) (saveSeat (seat\<lparr>seat_status := AVAILABLE\<rparr>) s)"
    using expire_effect(1)[OF l p t] s' by simp
  have rs: "reservations s' =
      map (\<lambda>x. if reservation_id x = rid then x\<lparr>status := EXPIRED\<rparr> else x) (reservations s)"
    using update_distinct_row[OF dr rin, of "\<lambda>x. x\<lparr>status := EXPIRED\<rparr>"] rid
    by (simp add: e saveReservation_def saveSeat_def)
  have ss: "seats s' =
      map (\<lambda>x. if seat_id x = seatId r then x\<lparr>seat_status := AVAILABLE\<rparr> else x) (seats s)"
    using update_distinct_row[OF ds sin, of "\<lambda>x. x\<lparr>seat_status := AVAILABLE\<rparr>"] sid
    by (simp add: e saveReservation_def saveSeat_def)
  have c1: "rowsChanged (reservations s) (reservations s') \<le> 1"
  proof -
    have "length (filter (\<lambda>x. x \<noteq> (if reservation_id x = rid then x\<lparr>status := EXPIRED\<rparr> else x)) (reservations s))
          \<le> length (filter (\<lambda>x. reservation_id x = rid) (reservations s))"
      by (rule length_filter_mono) (auto split: if_splits)
    with distinct_key_count[OF dr, of rid] show ?thesis
      by (simp add: rs rowsChanged_map)
  qed
  have c2: "rowsChanged (seats s) (seats s') \<le> 1"
  proof -
    have "length (filter (\<lambda>x. x \<noteq> (if seat_id x = seatId r then x\<lparr>seat_status := AVAILABLE\<rparr> else x)) (seats s))
          \<le> length (filter (\<lambda>x. seat_id x = seatId r) (seats s))"
      by (rule length_filter_mono) (auto split: if_splits)
    with distinct_key_count[OF ds, of "seatId r"] show ?thesis
      by (simp add: ss rowsChanged_map)
  qed
  have f1: "sessions s' = sessions s \<and> sales s' = sales s \<and> nextId s' = nextId s"
    by (simp add: e saveReservation_def saveSeat_def)
  have f2: "\<forall>i < length (reservations s).
          reservations s' ! i = reservations s ! i
          \<or> reservation_id (reservations s ! i) = rid
            \<and> reservations s' ! i = (reservations s ! i)\<lparr>status := EXPIRED\<rparr>"
    by (simp add: rs)
  have f3: "\<forall>i < length (seats s).
          seats s' ! i = seats s ! i
          \<or> (\<exists>r \<in> set (reservations s). reservation_id r = rid \<and> seatId r = seat_id (seats s ! i))
            \<and> seats s' ! i = (seats s ! i)\<lparr>seat_status := AVAILABLE\<rparr>"
    using rin rid by (auto simp: ss)
  show ?thesis using f1 f2 f3 c1 c2 by (simp add: rs ss)
qed

theorem expireReservation_frame_witness:
  "pkUnique heldStore
   \<and> rowsChanged (reservations heldStore) (reservations (expireReservation 100 31001 heldStore)) \<le> 1
   \<and> rowsChanged (seats heldStore) (seats (expireReservation 100 31001 heldStore)) \<le> 1
   \<and> sales (expireReservation 100 31001 heldStore) = sales heldStore
   \<and> sessions (expireReservation 100 31001 heldStore) = sessions heldStore
   \<and> expireReservation 100 31001 heldStore \<noteq> heldStore"
proof -
  have pk: "pkUnique heldStore"
    by (simp add: pkUnique_def heldStore_def mkSeat_def)
  have "status (reservations (expireReservation 100 31001 heldStore) ! 0) = EXPIRED"
    by (simp add: expireReservation_def heldStore_lock)
       (simp add: saveReservation_def saveSeat_def heldStore_def)
  then have "expireReservation 100 31001 heldStore \<noteq> heldStore"
    by (auto simp: heldStore_def)
  with pk expireReservation_frame[OF pk refl, of 100 31001] show ?thesis by simp
qed

section \<open>createReservation\<close>

lemma lockSeat_Some:
  "lockSeat s sid l = Some seat \<Longrightarrow> seat \<in> set (seats s) \<and> sessionId seat = sid \<and> seatNumber seat = l"
  by (auto simp: lockSeat_def find_Some_iff)

lemma saveSeat_status:
  assumes "distinct (map seat_id (seats s))" "seat \<in> set (seats s)"
  shows "seats (saveSeat (seat\<lparr>seat_status := st\<rparr>) s) =
           map (\<lambda>x. if seat_id x = seat_id seat then x\<lparr>seat_status := st\<rparr> else x) (seats s)"
  using update_distinct_row[OF assms, of "\<lambda>x. x\<lparr>seat_status := st\<rparr>"]
  by (simp add: saveSeat_def)

lemma reserveSeat_Inr:
  assumes "reserveSeat sid user expires dbNow l s = (w, Inr r)"
  obtains seat where "lockSeat s sid l = Some seat" "seat_status seat = AVAILABLE"
    "w = snd (insertReservation (seat_id seat) user expires dbNow
                (saveSeat (seat\<lparr>seat_status := RESERVED\<rparr>) s))"
    "r = \<lparr>rr_id = nextId s, rr_seatId = seat_id seat, rr_seatNumber = l, rr_userId = user,
          rr_status = PENDING, rr_expiresAt = expires, rr_createdAt = dbNow\<rparr>"
  using assms
  by (auto simp: reserveSeat_def insertReservation_def saveSeat_def Let_def
      split: option.splits if_splits dest!: lockSeat_Some)

lemma reserveSeat_Inl:
  assumes "reserveSeat sid user expires dbNow l s = (w, Inl e)"
  shows "w = s \<and> \<not> available s sid l
    \<and> (e = SeatNotFound l sid \<or> (\<exists>st. st \<noteq> AVAILABLE \<and> e = SeatNotAvailable l st))"
  using assms
  by (auto simp: reserveSeat_def available_def insertReservation_def Let_def
      split: option.splits if_splits)

lemma reserveSeat_seats:
  assumes d: "distinct (map seat_id (seats s))"
    and r: "reserveSeat sid user expires dbNow l s = (w, Inr dto)"
  obtains seat where "lockSeat s sid l = Some seat" "seat_status seat = AVAILABLE"
    "seats w = map (\<lambda>x. if seat_id x = seat_id seat then x\<lparr>seat_status := RESERVED\<rparr> else x) (seats s)"
proof -
  from r obtain seat where l: "lockSeat s sid l = Some seat" and a: "seat_status seat = AVAILABLE"
    and w: "w = snd (insertReservation (seat_id seat) user expires dbNow
                (saveSeat (seat\<lparr>seat_status := RESERVED\<rparr>) s))"
    by (rule reserveSeat_Inr)
  from lockSeat_Some[OF l] have "seat \<in> set (seats s)" by simp
  from saveSeat_status[OF d this, of RESERVED]
  have "seats w = map (\<lambda>x. if seat_id x = seat_id seat then x\<lparr>seat_status := RESERVED\<rparr> else x) (seats s)"
    by (simp add: w insertReservation_def Let_def)
  with l a show ?thesis by (rule that)
qed

lemma lockSeat_status_update:
  assumes "seats w = map (\<lambda>x. if seat_id x = i then x\<lparr>seat_status := st\<rparr> else x) (seats s)"
  shows "lockSeat w sid l =
           map_option (\<lambda>x. if seat_id x = i then x\<lparr>seat_status := st\<rparr> else x) (lockSeat s sid l)"
proof -
  have "(\<lambda>x. sessionId (if seat_id x = i then x\<lparr>seat_status := st\<rparr> else x) = sid \<and>
             seatNumber (if seat_id x = i then x\<lparr>seat_status := st\<rparr> else x) = l)
        = (\<lambda>x. sessionId x = sid \<and> seatNumber x = l)"
    by auto
  then show ?thesis by (simp add: lockSeat_def assms find_map_upd)
qed

lemma reserveSeat_available:
  assumes d: "distinct (map seat_id (seats s))"
    and r: "reserveSeat sid user expires dbNow l s = (w, Inr dto)"
  shows "available s sid l" "\<not> available w sid l" "available w sid l' \<Longrightarrow> available s sid l'"
    "map seat_id (seats w) = map seat_id (seats s)"
proof -
  from d r obtain seat where l: "lockSeat s sid l = Some seat" and a: "seat_status seat = AVAILABLE"
    and w: "seats w = map (\<lambda>x. if seat_id x = seat_id seat then x\<lparr>seat_status := RESERVED\<rparr> else x) (seats s)"
    by (rule reserveSeat_seats)
  show "available s sid l" using l a by (simp add: available_def)
  show "\<not> available w sid l"
    using l by (simp add: available_def lockSeat_status_update[OF w])
  show "available w sid l' \<Longrightarrow> available s sid l'"
    by (auto simp: available_def lockSeat_status_update[OF w] split: option.splits if_splits)
  show "map seat_id (seats w) = map seat_id (seats s)"
    by (simp add: w)
qed

lemma reserveSeats_Inr:
  assumes "distinct (map seat_id (seats s))"
    and "reserveSeats sid user expires dbNow labels acc s = (w, Inr rs)"
  shows "distinct labels \<and> (\<forall>l \<in> set labels. available s sid l)"
  using assms
proof (induction labels arbitrary: acc s)
  case Nil
  then show ?case by simp
next
  case (Cons l rest)
  from Cons.prems(2) obtain w1 r where
    step: "reserveSeat sid user expires dbNow l s = (w1, Inr r)"
    and tail: "reserveSeats sid user expires dbNow rest (acc @ [r]) w1 = (w, Inr rs)"
    by (auto split: prod.splits sum.splits)
  note av = reserveSeat_available[OF Cons.prems(1) step]
  from av(4) Cons.prems(1) have d1: "distinct (map seat_id (seats w1))" by simp
  from Cons.IH[OF d1 tail] have ih: "distinct rest" "\<forall>l \<in> set rest. available w1 sid l" by auto
  from ih(2) av(2) have "l \<notin> set rest" by auto
  moreover from ih(2) av(3) have "\<forall>l \<in> set rest. available s sid l" by auto
  ultimately show ?case using ih(1) av(1) by simp
qed

lemma reserveSeats_Inl:
  assumes "reserveSeats sid user expires dbNow labels acc s = (w, Inl e)"
  shows "\<exists>l \<in> set labels. e = SeatNotFound l sid \<or> (\<exists>st. st \<noteq> AVAILABLE \<and> e = SeatNotAvailable l st)"
  using assms
proof (induction labels arbitrary: acc s)
  case Nil
  then show ?case by simp
next
  case (Cons l rest)
  show ?case
  proof (cases "reserveSeat sid user expires dbNow l s")
    case (Pair w1 res)
    show ?thesis
    proof (cases res)
      case (Inl e1)
      with Pair Cons.prems have "e = e1" by simp
      with reserveSeat_Inl[of sid user expires dbNow l s w1 e1] Pair Inl show ?thesis by auto
    next
      case (Inr r)
      with Pair Cons.prems
      have "reserveSeats sid user expires dbNow rest (acc @ [r]) w1 = (w, Inl e)" by simp
      from Cons.IH[OF this] show ?thesis by auto
    qed
  qed
qed

lemma createReservation_Inl:
  assumes "createReservation ttl dto now dbNow s = (s', Inl e)"
  shows "s' = s"
    and "e = SessionNotFound (cr_sessionId dto)
         \<or> (\<exists>l \<in> set (seatNumbers dto). e = SeatNotFound l (cr_sessionId dto)
              \<or> (\<exists>st. st \<noteq> AVAILABLE \<and> e = SeatNotAvailable l st))"
proof -
  show "s' = s" using assms
    by (auto simp: createReservation_def Let_def split: option.splits prod.splits sum.splits)
  show "e = SessionNotFound (cr_sessionId dto)
         \<or> (\<exists>l \<in> set (seatNumbers dto). e = SeatNotFound l (cr_sessionId dto)
              \<or> (\<exists>st. st \<noteq> AVAILABLE \<and> e = SeatNotAvailable l st))"
  proof (cases "findSession s (cr_sessionId dto)")
    case None
    with assms show ?thesis by (simp add: createReservation_def)
  next
    case (Some session)
    then have sid: "session_id session = cr_sessionId dto" by (simp add: findSession_Some)
    from assms Some obtain w where
      "reserveSeats (cr_sessionId dto) (cr_userId dto) (now + ttl * 1000) dbNow
          (sort (seatNumbers dto)) [] s = (w, Inl e)"
      by (auto simp: createReservation_def Let_def sid split: prod.splits sum.splits)
    from reserveSeats_Inl[OF this] show ?thesis by simp
  qed
qed

lemma createReservation_Inr:
  assumes "distinct (map seat_id (seats s))"
    and "createReservation ttl dto now dbNow s = (s', Inr rs)"
  shows "findSession s (cr_sessionId dto) \<noteq> None" "distinct (seatNumbers dto)"
    "\<forall>l \<in> set (seatNumbers dto). available s (cr_sessionId dto) l"
proof -
  from assms(2) obtain session where f: "findSession s (cr_sessionId dto) = Some session"
    by (auto simp: createReservation_def Let_def split: option.splits)
  then have sid: "session_id session = cr_sessionId dto" by (simp add: findSession_Some)
  from f show "findSession s (cr_sessionId dto) \<noteq> None" by simp
  from assms(2) f obtain w where
    "reserveSeats (cr_sessionId dto) (cr_userId dto) (now + ttl * 1000) dbNow
        (sort (seatNumbers dto)) [] s = (w, Inr rs)"
    by (auto simp: createReservation_def Let_def sid split: prod.splits sum.splits)
  from reserveSeats_Inr[OF assms(1) this]
  show "distinct (seatNumbers dto)" "\<forall>l \<in> set (seatNumbers dto). available s (cr_sessionId dto) l"
    by simp_all
qed

lemma createReservation_result_cases:
  obtains rs s' where "createReservation ttl dto now dbNow s = (s', Inr rs)"
  | e where "createReservation ttl dto now dbNow s = (s, Inl e)"
proof (cases "createReservation ttl dto now dbNow s")
  case (Pair s' res)
  show ?thesis
  proof (cases res)
    case (Inl e)
    with Pair createReservation_Inl(1)[of ttl dto now dbNow s s' e] that(2) show ?thesis by simp
  next
    case (Inr rs)
    with Pair that(1) show ?thesis by simp
  qed
qed

text \<open>
  Claim C5.  When the session is absent, a requested seat is absent or a requested seat is
  not \<open>AVAILABLE\<close>, \<open>createReservation\<close> throws and the committed store is the one the
  call started from; and whenever it throws, the store is unchanged and the error is
  the session's or a seat's \<open>NotFoundException\<close> or the seat's \<open>BadRequestException\<close>.
\<close>

theorem createReservation_no_partial_holds:
  assumes "pkUnique s"
  shows "(findSession s (cr_sessionId dto) = None \<longrightarrow>
           createReservation ttl dto now dbNow s = (s, Inl (SessionNotFound (cr_sessionId dto))))
    \<and> ((\<exists>l \<in> set (seatNumbers dto).
           lockSeat s (cr_sessionId dto) l = None
           \<or> (\<exists>seat. lockSeat s (cr_sessionId dto) l = Some seat \<and> seat_status seat \<noteq> AVAILABLE)) \<longrightarrow>
         (\<exists>e. createReservation ttl dto now dbNow s = (s, Inl e)))
    \<and> (\<forall>s' e. createReservation ttl dto now dbNow s = (s', Inl e) \<longrightarrow>
          s' = s
          \<and> (e = SessionNotFound (cr_sessionId dto)
             \<or> (\<exists>l \<in> set (seatNumbers dto). e = SeatNotFound l (cr_sessionId dto)
                  \<or> (\<exists>st. st \<noteq> AVAILABLE \<and> e = SeatNotAvailable l st))))"
proof (intro conjI impI allI)
  assume "findSession s (cr_sessionId dto) = None"
  then show "createReservation ttl dto now dbNow s = (s, Inl (SessionNotFound (cr_sessionId dto)))"
    by (simp add: createReservation_def)
next
  assume "\<exists>l \<in> set (seatNumbers dto).
           lockSeat s (cr_sessionId dto) l = None
           \<or> (\<exists>seat. lockSeat s (cr_sessionId dto) l = Some seat \<and> seat_status seat \<noteq> AVAILABLE)"
  then have na: "\<exists>l \<in> set (seatNumbers dto). \<not> available s (cr_sessionId dto) l"
    by (force simp: available_def)
  from assms have d: "distinct (map seat_id (seats s))" by (simp add: pkUnique_def)
  show "\<exists>e. createReservation ttl dto now dbNow s = (s, Inl e)"
  proof (cases rule: createReservation_result_cases[of ttl dto now dbNow s])
    case (1 rs s')
    from createReservation_Inr(3)[OF d 1] na show ?thesis by blast
  next
    case (2 e)
    then show ?thesis by blast
  qed
next
  fix s' e
  assume "createReservation ttl dto now dbNow s = (s', Inl e)"
  from createReservation_Inl[OF this]
  show "s' = s" and "e = SessionNotFound (cr_sessionId dto)
             \<or> (\<exists>l \<in> set (seatNumbers dto). e = SeatNotFound l (cr_sessionId dto)
                  \<or> (\<exists>st. st \<noteq> AVAILABLE \<and> e = SeatNotAvailable l st))"
    by simp_all
qed

theorem createReservation_no_partial_holds_witness:
  "pkUnique heldStore
   \<and> lockSeat heldStore (cr_sessionId partialDto) ''B9'' = None
   \<and> ''B9'' \<in> set (seatNumbers partialDto)
   \<and> fst (reserveSeat 1 ''u2'' 70000 40001 ''A3'' heldStore) \<noteq> heldStore
   \<and> createReservation 30 partialDto 40000 40001 heldStore = (heldStore, Inl (SeatNotFound ''B9'' 1))
   \<and> findSession heldStore (cr_sessionId (partialDto\<lparr>cr_sessionId := 9\<rparr>)) = None
   \<and> createReservation 30 (partialDto\<lparr>cr_sessionId := 9\<rparr>) 40000 40001 heldStore
       = (heldStore, Inl (SessionNotFound 9))"
proof -
  have n: "findSession heldStore (cr_sessionId (partialDto\<lparr>cr_sessionId := 9\<rparr>)) = None"
    by (simp add: findSession_def heldStore_def session1_def)
  with createReservation_no_partial_holds[OF pkUnique_heldStore,
      of "partialDto\<lparr>cr_sessionId := 9\<rparr>" 30 40000 40001]
  have ns: "createReservation 30 (partialDto\<lparr>cr_sessionId := 9\<rparr>) 40000 40001 heldStore
       = (heldStore, Inl (SessionNotFound 9))"
    by simp
  have l: "lockSeat heldStore (cr_sessionId partialDto) ''B9'' = None"
    by (simp add: lockSeat_def heldStore_def partialDto_def mkSeat_def)
  have m: "''B9'' \<in> set (seatNumbers partialDto)" by (simp add: partialDto_def)
  have "nextId (fst (reserveSeat 1 ''u2'' 70000 40001 ''A3'' heldStore)) = 103"
    by code_simp
  then have w: "fst (reserveSeat 1 ''u2'' 70000 40001 ''A3'' heldStore) \<noteq> heldStore"
    by (auto simp: heldStore_def)
  from l m createReservation_no_partial_holds[OF pkUnique_heldStore, of partialDto 30 40000 40001]
  obtain e where e: "createReservation 30 partialDto 40000 40001 heldStore = (heldStore, Inl e)"
    by blast
  have "snd (createReservation 30 partialDto 40000 40001 heldStore) = Inl (SeatNotFound ''B9'' 1)"
    by code_simp
  with e have "createReservation 30 partialDto 40000 40001 heldStore
      = (heldStore, Inl (SeatNotFound ''B9'' 1))" by simp
  with l m w pkUnique_heldStore n ns show ?thesis by simp
qed

text \<open>
  Claim C6 as stated fails: the source has no step that removes or rejects repeated seat
  numbers.  A request naming the absent seat \<open>Z9\<close> twice is answered by the seat loop
  with \<open>NotFoundException\<close>.
\<close>

theorem createReservation_duplicate_counterexample:
  "\<not> distinct (seatNumbers dupDto)
   \<and> createReservation 30 dupDto 1000 1001 store0 = (store0, Inl (SeatNotFound ''Z9'' 1))
   \<and> class_of (SeatNotFound ''Z9'' 1) = NotFoundException"
proof -
  have "createReservation 30 dupDto 1000 1001 store0 = (store0, Inl (SeatNotFound ''Z9'' 1))"
    by code_simp
  then show ?thesis by (simp add: dupDto_def)
qed

text \<open>
  Where the seat loop throws: after a run of distinct seat numbers, each found
  \<open>AVAILABLE\<close> in the store the call started from, at a seat number that the loop has
  just reserved itself, that no seat of the session carries, or whose seat is not
  \<open>AVAILABLE\<close>.
\<close>

lemma reserveSeats_first_failure:
  assumes d: "distinct (map seat_id (seats s))"
    and run: "reserveSeats sid user expires dbNow labels acc s = (w, Inl e)"
  shows "\<exists>pre l post. labels = pre @ l # post \<and> distinct pre
      \<and> (\<forall>x \<in> set pre. available s sid x)
      \<and> (if l \<in> set pre then e = SeatNotAvailable l RESERVED
           else case lockSeat s sid l of
                  None \<Rightarrow> e = SeatNotFound l sid
                | Some seat \<Rightarrow>
                    seat_status seat \<noteq> AVAILABLE \<and> e = SeatNotAvailable l (seat_status seat))"
  using assms
proof (induction labels arbitrary: acc s)
  case Nil
  then show ?case by simp
next
  case (Cons l rest)
  show ?case
  proof (cases "reserveSeat sid user expires dbNow l s")
    case (Pair w1 res)
    show ?thesis
    proof (cases res)
      case (Inl e1)
      with Pair Cons.prems(2) have "e1 = e" by simp
      with Pair Inl have "case lockSeat s sid l of
                  None \<Rightarrow> e = SeatNotFound l sid
                | Some seat \<Rightarrow>
                    seat_status seat \<noteq> AVAILABLE \<and> e = SeatNotAvailable l (seat_status seat)"
        by (auto simp: reserveSeat_def insertReservation_def Let_def split: option.splits if_splits)
      then have "l # rest = [] @ l # rest \<and> distinct ([] :: string list)
          \<and> (\<forall>x \<in> set ([] :: string list). available s sid x)
          \<and> (if l \<in> set ([] :: string list) then e = SeatNotAvailable l RESERVED
           else case lockSeat s sid l of
                  None \<Rightarrow> e = SeatNotFound l sid
                | Some seat \<Rightarrow>
                    seat_status seat \<noteq> AVAILABLE \<and> e = SeatNotAvailable l (seat_status seat))"
        by simp
      then show ?thesis by blast
    next
      case (Inr r)
      with Pair have step: "reserveSeat sid user expires dbNow l s = (w1, Inr r)" by simp
      from Pair Inr Cons.prems(2)
      have tail: "reserveSeats sid user expires dbNow rest (acc @ [r]) w1 = (w, Inl e)" by simp
      note av = reserveSeat_available[OF Cons.prems(1) step]
      from av(4) Cons.prems(1) have d1: "distinct (map seat_id (seats w1))" by simp
      from Cons.prems(1) step obtain seat where
        ls: "lockSeat s sid l = Some seat" and
        w1: "seats w1 = map (\<lambda>x. if seat_id x = seat_id seat then x\<lparr>seat_status := RESERVED\<rparr> else x)
                          (seats s)"
        by (rule reserveSeat_seats)
      note lw = lockSeat_status_update[OF w1]
      from Cons.IH[OF d1 tail] obtain pre l' post where
        ih: "rest = pre @ l' # post" "distinct pre" "\<forall>x \<in> set pre. available w1 sid x"
          "if l' \<in> set pre then e = SeatNotAvailable l' RESERVED
           else case lockSeat w1 sid l' of
                  None \<Rightarrow> e = SeatNotFound l' sid
                | Some seat \<Rightarrow>
                    seat_status seat \<noteq> AVAILABLE \<and> e = SeatNotAvailable l' (seat_status seat)"
        by blast
      from ih(3) av(2) have notin: "l \<notin> set pre" by auto
      from ih(3) av(1,3) have avs: "\<forall>x \<in> set (l # pre). available s sid x" by auto
      have last: "if l' \<in> set (l # pre) then e = SeatNotAvailable l' RESERVED
           else case lockSeat s sid l' of
                  None \<Rightarrow> e = SeatNotFound l' sid
                | Some seat \<Rightarrow>
                    seat_status seat \<noteq> AVAILABLE \<and> e = SeatNotAvailable l' (seat_status seat)"
      proof (cases "l' \<in> set pre")
        case True
        with ih(4) show ?thesis by simp
      next
        case np: False
        show ?thesis
        proof (cases "l' = l")
          case True
          with np ih(4) ls show ?thesis by (simp add: lw)
        next
          case False
          show ?thesis
          proof (cases "lockSeat s sid l'")
            case None
            with np False ih(4) show ?thesis by (simp add: lw)
          next
            case (Some seat0)
            from lockSeat_Some[OF Some] lockSeat_Some[OF ls] False
            have "seat0 \<in> set (seats s)" "seat \<in> set (seats s)" "seat0 \<noteq> seat" by auto
            with distinct_key_eq[OF Cons.prems(1), of seat0 seat]
            have "seat_id seat0 \<noteq> seat_id seat" by blast
            with Some np False ih(4) show ?thesis by (simp add: lw)
          qed
        qed
      qed
      from ih(1,2) notin avs last
      have "l # rest = (l # pre) @ l' # post \<and> distinct (l # pre)
          \<and> (\<forall>x \<in> set (l # pre). available s sid x)
          \<and> (if l' \<in> set (l # pre) then e = SeatNotAvailable l' RESERVED
           else case lockSeat s sid l' of
                  None \<Rightarrow> e = SeatNotFound l' sid
                | Some seat \<Rightarrow>
                    seat_status seat \<noteq> AVAILABLE \<and> e = SeatNotAvailable l' (seat_status seat))"
        by simp
      then show ?thesis by blast
    qed
  qed
qed

text \<open>
  Claim C6, amended.  A request whose seat numbers repeat always throws and leaves the
  store unchanged, so no reservation is created.  The error is \<open>Session ... not found\<close>
  when the session is absent.  Otherwise it is the error of the first seat number, in
  sorted order, after a run of distinct seat numbers found \<open>AVAILABLE\<close>: \<open>not available
  (current status: RESERVED)\<close> when it repeats a seat number of that run, \<open>Seat ... not
  found\<close> when no seat of the session carries it, and \<open>not available\<close> with the seat's
  status when its seat is not \<open>AVAILABLE\<close>.
\<close>

theorem createReservation_rejects_duplicates:
  assumes "pkUnique s" and "\<not> distinct (seatNumbers dto)"
  shows "\<exists>e. createReservation ttl dto now dbNow s = (s, Inl e)
     \<and> (findSession s (cr_sessionId dto) = None \<longrightarrow> e = SessionNotFound (cr_sessionId dto))
     \<and> (findSession s (cr_sessionId dto) \<noteq> None \<longrightarrow>
          (\<exists>pre l post. sort (seatNumbers dto) = pre @ l # post \<and> distinct pre
             \<and> (\<forall>x \<in> set pre. available s (cr_sessionId dto) x)
             \<and> (if l \<in> set pre then e = SeatNotAvailable l RESERVED
                  else case lockSeat s (cr_sessionId dto) l of
                         None \<Rightarrow> e = SeatNotFound l (cr_sessionId dto)
                       | Some seat \<Rightarrow>
                           seat_status seat \<noteq> AVAILABLE
                           \<and> e = SeatNotAvailable l (seat_status seat))))"
proof (cases rule: createReservation_result_cases[of ttl dto now dbNow s])
  case (1 rs s')
  from assms(1) have "distinct (map seat_id (seats s))" by (simp add: pkUnique_def)
  from createReservation_Inr(2)[OF this 1] assms(2) show ?thesis by simp
next
  case (2 e)
  from assms(1) have d: "distinct (map seat_id (seats s))" by (simp add: pkUnique_def)
  show ?thesis
  proof (cases "findSession s (cr_sessionId dto)")
    case None
    with 2 have "e = SessionNotFound (cr_sessionId dto)" by (simp add: createReservation_def)
    with 2 None show ?thesis by simp
  next
    case (Some session)
    then have sid: "session_id session = cr_sessionId dto" by (simp add: findSession_Some)
    from 2 Some obtain w where
      "reserveSeats (cr_sessionId dto) (cr_userId dto) (now + ttl * 1000) dbNow
          (sort (seatNumbers dto)) [] s = (w, Inl e)"
      by (auto simp: createReservation_def Let_def sid split: prod.splits sum.splits)
    from reserveSeats_first_failure[OF d this] 2 Some show ?thesis by simp
  qed
qed

theorem createReservation_rejects_duplicates_witness:
  "pkUnique store0 \<and> \<not> distinct (seatNumbers absentTwiceDto)
   \<and> findSession store0 (cr_sessionId absentTwiceDto) \<noteq> None
   \<and> sort (seatNumbers absentTwiceDto) = [''A3''] @ ''A3'' # [''Z9'']
   \<and> lockSeat store0 1 ''Z9'' = None
   \<and> createReservation 30 absentTwiceDto 1000 1001 store0
        = (store0, Inl (SeatNotAvailable ''A3'' RESERVED))"
proof -
  have pk: "pkUnique store0" by (simp add: pkUnique_def store0_def mkSeat_def)
  have nd: "\<not> distinct (seatNumbers absentTwiceDto)" by (simp add: absentTwiceDto_def)
  from createReservation_rejects_duplicates[OF pk nd, of 30 1000 1001]
  obtain e where e: "createReservation 30 absentTwiceDto 1000 1001 store0 = (store0, Inl e)"
    by blast
  have "snd (createReservation 30 absentTwiceDto 1000 1001 store0)
      = Inl (SeatNotAvailable ''A3'' RESERVED)"
    by code_simp
  with e have r: "createReservation 30 absentTwiceDto 1000 1001 store0
        = (store0, Inl (SeatNotAvailable ''A3'' RESERVED))" by simp
  have f: "findSession store0 (cr_sessionId absentTwiceDto) \<noteq> None" by code_simp
  have s: "sort (seatNumbers absentTwiceDto) = [''A3''] @ ''A3'' # [''Z9'']" by code_simp
  have z: "lockSeat store0 1 ''Z9'' = None" by code_simp
  from pk nd f s z r show ?thesis by simp
qed

lemma reserveSeats_rows:
  assumes "reserveSeats sid user expires dbNow labels acc s = (w, Inr rs)"
  shows "\<exists>new rows. rs = acc @ new \<and> reservations w = reservations s @ rows
    \<and> (\<forall>r \<in> set new. rr_expiresAt r = expires \<and> rr_userId r = user \<and> rr_status r = PENDING)
    \<and> (\<forall>r \<in> set rows. expiresAt r = expires \<and> userId r = user \<and> status r = PENDING)
    \<and> map rr_id new = map reservation_id rows \<and> length rows = length labels"
  using assms
proof (induction labels arbitrary: acc s)
  case Nil
  then show ?case by simp
next
  case (Cons l rest)
  from Cons.prems obtain w1 r where
    step: "reserveSeat sid user expires dbNow l s = (w1, Inr r)"
    and tail: "reserveSeats sid user expires dbNow rest (acc @ [r]) w1 = (w, Inr rs)"
    by (auto split: prod.splits sum.splits)
  from step obtain seat where
    w1: "w1 = snd (insertReservation (seat_id seat) user expires dbNow
                (saveSeat (seat\<lparr>seat_status := RESERVED\<rparr>) s))"
    and r: "r = \<lparr>rr_id = nextId s, rr_seatId = seat_id seat, rr_seatNumber = l, rr_userId = user,
          rr_status = PENDING, rr_expiresAt = expires, rr_createdAt = dbNow\<rparr>"
    by (rule reserveSeat_Inr)
  let ?row = "\<lparr>reservation_id = nextId s, seatId = seat_id seat, userId = user,
                status = PENDING, expiresAt = expires, createdAt = dbNow\<rparr>"
  have rw: "reservations w1 = reservations s @ [?row]"
    by (simp add: w1 insertReservation_def saveSeat_def Let_def)
  from Cons.IH[OF tail] obtain new rows where
    ih: "rs = (acc @ [r]) @ new" "reservations w = reservations w1 @ rows"
      "\<forall>r \<in> set new. rr_expiresAt r = expires \<and> rr_userId r = user \<and> rr_status r = PENDING"
      "\<forall>r \<in> set rows. expiresAt r = expires \<and> userId r = user \<and> status r = PENDING"
      "map rr_id new = map reservation_id rows" "length rows = length rest"
    by blast
  show ?case
    apply (rule exI[of _ "r # new"], rule exI[of _ "?row # rows"])
    using ih rw r by simp
qed

text \<open>
  Claim C9, amended.  Every reservation created by one call carries
  \<open>expiresAt = now + reservationTtl * 1000\<close>, for the clock value \<open>now\<close> the call read; two
  calls give different \<open>expiresAt\<close> values exactly when they read different clock values.
\<close>

theorem createReservation_expiresAt:
  assumes "createReservation ttl dto1 now1 dbNow1 s1 = (s1', Inr rs1)"
    and "createReservation ttl dto2 now2 dbNow2 s2 = (s2', Inr rs2)"
  shows "(\<forall>a \<in> set rs1. rr_expiresAt a = now1 + ttl * 1000)
    \<and> (\<exists>rows. reservations s1' = reservations s1 @ rows
          \<and> map reservation_id rows = map rr_id rs1
          \<and> (\<forall>r \<in> set rows. expiresAt r = now1 + ttl * 1000 \<and> userId r = cr_userId dto1
                \<and> status r = PENDING))
    \<and> (\<forall>a \<in> set rs1. \<forall>b \<in> set rs2. rr_expiresAt a = rr_expiresAt b \<longleftrightarrow> now1 = now2)"
proof -
  have *: "\<exists>rows. reservations s' = reservations s @ rows
          \<and> map reservation_id rows = map rr_id rs
          \<and> (\<forall>r \<in> set rows. expiresAt r = now + ttl * 1000 \<and> userId r = cr_userId dto
                \<and> status r = PENDING)
          \<and> (\<forall>a \<in> set rs. rr_expiresAt a = now + ttl * 1000)"
    if "createReservation ttl dto now dbNow s = (s', Inr rs)" for dto now dbNow s s' rs
  proof -
    from that obtain session :: Session where
      "reserveSeats (session_id session) (cr_userId dto) (now + ttl * 1000) dbNow
          (sort (seatNumbers dto)) [] s = (s', Inr rs)"
      by (auto simp: createReservation_def Let_def split: option.splits prod.splits sum.splits)
    from reserveSeats_rows[OF this] show ?thesis by auto
  qed
  from *[OF assms(1)] *[OF assms(2)] show ?thesis by auto
qed

theorem createReservation_expiresAt_witness:
  "createReservation 30 holdA1 1000 1001 store0 = (firstHoldStore,
      Inr [\<lparr>rr_id = 100, rr_seatId = 10, rr_seatNumber = ''A1'', rr_userId = ''u1'',
            rr_status = PENDING, rr_expiresAt = 31000, rr_createdAt = 1001\<rparr>])
   \<and> snd (createReservation 30 holdA2 1007 1008 firstHoldStore) =
      Inr [\<lparr>rr_id = 101, rr_seatId = 11, rr_seatNumber = ''A2'', rr_userId = ''u1'',
            rr_status = PENDING, rr_expiresAt = 31007, rr_createdAt = 1008\<rparr>]
   \<and> (31000::int) \<noteq> 31007"
proof -
  let ?a = "\<lparr>rr_id = 100, rr_seatId = 10, rr_seatNumber = ''A1'', rr_userId = ''u1'',
            rr_status = PENDING, rr_expiresAt = 31000, rr_createdAt = 1001\<rparr>"
  let ?b = "\<lparr>rr_id = 101, rr_seatId = 11, rr_seatNumber = ''A2'', rr_userId = ''u1'',
            rr_status = PENDING, rr_expiresAt = 31007, rr_createdAt = 1008\<rparr>"
  have a: "createReservation 30 holdA1 1000 1001 store0 = (firstHoldStore, Inr [?a])"
    by code_simp
  have b: "snd (createReservation 30 holdA2 1007 1008 firstHoldStore) = Inr [?b]"
    by code_simp
  then have b': "createReservation 30 holdA2 1007 1008 firstHoldStore
      = (fst (createReservation 30 holdA2 1007 1008 firstHoldStore), Inr [?b])"
    by (metis prod.collapse)
  from createReservation_expiresAt[OF a b']
  have "rr_expiresAt ?a = rr_expiresAt ?b \<longleftrightarrow> (1000::int) = 1007" by simp
  with a b show ?thesis by simp
qed

text \<open>
  Claim C9 as stated fails: two requests of one user for one session that read the same
  millisecond create reservations with one \<open>expiresAt\<close>, and confirming the first also
  confirms the second.
\<close>

theorem createReservation_same_millisecond_counterexample:
  "createReservation 30 holdA1 1000 1001 store0 = (firstHoldStore,
      Inr [\<lparr>rr_id = 100, rr_seatId = 10, rr_seatNumber = ''A1'', rr_userId = ''u1'',
            rr_status = PENDING, rr_expiresAt = 31000, rr_createdAt = 1001\<rparr>])
   \<and> createReservation 30 holdA2 1000 1001 firstHoldStore = (heldStore,
      Inr [\<lparr>rr_id = 101, rr_seatId = 11, rr_seatNumber = ''A2'', rr_userId = ''u1'',
            rr_status = PENDING, rr_expiresAt = 31000, rr_createdAt = 1001\<rparr>])
   \<and> map (reservation_id \<circ> fst) (lockRelatedReservations heldStore ''u1'' 1 31000) = [100, 101]
   \<and> map status (reservations (fst (confirmPayment confirm100 2000 2001 2002 heldStore)))
        = [CONFIRMED, CONFIRMED]
   \<and> map reservationId (sales (fst (confirmPayment confirm100 2000 2001 2002 heldStore)))
        = [100, 101]"
  by code_simp

section \<open>retryWithBackoff\<close>

lemma retryLoop_trace:
  assumes "retryLoop opts fn a lastError sl = (out, slept)" and "a \<le> maxAttempts opts"
  shows "\<exists>more. slept = sl @ more
    \<and> (\<forall>i < length more. more ! i = delayAfter opts (a + i))
    \<and> a + length more \<le> maxAttempts opts
    \<and> (\<forall>k. a \<le> k \<and> k < a + length more \<longrightarrow> (\<exists>e. fn k = Inl e \<and> retryable opts e))
    \<and> (case out of
          Returned v \<Rightarrow> fn (a + length more) = Inr v
        | Thrown e \<Rightarrow> fn (a + length more) = Inl e
            \<and> (\<not> retryable opts e \<or> a + length more = maxAttempts opts)
        | ThrownUndefined \<Rightarrow> False)"
  using assms
proof (induction opts fn a lastError sl rule: retryLoop.induct)
  case (1 opts fn attempt lastError sl)
  show ?case
  proof (cases "fn attempt")
    case (Inr v)
    with "1.prems" have "out = Returned v" "slept = sl" by simp_all
    with Inr "1.prems"(2) show ?thesis by auto
  next
    case (Inl e)
    show ?thesis
    proof (cases "retryable opts e \<and> attempt < maxAttempts opts")
      case False
      with "1.prems" Inl have "out = Thrown e" "slept = sl"
        by (auto simp: retryable_def split: if_splits)
      with Inl False "1.prems"(2) show ?thesis by auto
    next
      case True
      let ?sl = "sl @ [min (initialDelayMs opts * backoffMultiplier opts ^ (attempt - 1))
                         (maxDelayMs opts)]"
      from True "1.prems" Inl
      have rec: "retryLoop opts fn (attempt + 1) (Some e) ?sl = (out, slept)"
        by (auto simp: retryable_def split: if_splits)
      have c1: "\<not> (0 < length (retryableErrors opts)
            \<and> \<not> list_ex (\<lambda>ErrorClass. ErrorClass e) (retryableErrors opts))"
        using True by (auto simp: retryable_def)
      have c2: "\<not> maxAttempts opts \<le> attempt" using True by simp
      from True have le: "attempt + 1 \<le> maxAttempts opts" by simp
      from "1.IH"[OF "1.prems"(2) Inl c1 c2 rec le]
      obtain more where m: "slept = ?sl @ more"
        "\<forall>i < length more. more ! i = delayAfter opts (attempt + 1 + i)"
        "attempt + 1 + length more \<le> maxAttempts opts"
        "\<forall>k. attempt + 1 \<le> k \<and> k < attempt + 1 + length more \<longrightarrow> (\<exists>e. fn k = Inl e \<and> retryable opts e)"
        "(case out of
          Returned v \<Rightarrow> fn (attempt + 1 + length more) = Inr v
        | Thrown e \<Rightarrow> fn (attempt + 1 + length more) = Inl e
            \<and> (\<not> retryable opts e \<or> attempt + 1 + length more = maxAttempts opts)
        | ThrownUndefined \<Rightarrow> False)"
        by blast
      let ?more = "delayAfter opts attempt # more"
      have "slept = sl @ ?more" using m(1) by (simp add: delayAfter_def)
      moreover have "\<forall>i < length ?more. ?more ! i = delayAfter opts (attempt + i)"
        using m(2) by (auto simp: nth_Cons split: nat.splits)
      moreover have "attempt + length ?more \<le> maxAttempts opts" using m(3) by simp
      moreover have "\<forall>k. attempt \<le> k \<and> k < attempt + length ?more \<longrightarrow> (\<exists>e. fn k = Inl e \<and> retryable opts e)"
      proof (intro allI impI)
        fix k assume k: "attempt \<le> k \<and> k < attempt + length ?more"
        show "\<exists>e. fn k = Inl e \<and> retryable opts e"
        proof (cases "k = attempt")
          case True
          with Inl \<open>retryable opts e \<and> attempt < maxAttempts opts\<close> show ?thesis by simp
        next
          case False
          with k m(4) show ?thesis by simp
        qed
      qed
      moreover have "(case out of
          Returned v \<Rightarrow> fn (attempt + length ?more) = Inr v
        | Thrown e \<Rightarrow> fn (attempt + length ?more) = Inl e
            \<and> (\<not> retryable opts e \<or> attempt + length ?more = maxAttempts opts)
        | ThrownUndefined \<Rightarrow> False)"
        using m(5) by (simp split: outcome.splits)
      ultimately show ?thesis by blast
    qed
  qed
qed

lemma readme_run:
  "retryWithBackoff alwaysConflict readmeOptions = (Thrown QueryFailedError, [100, 200])"
  by code_simp

section \<open>The expiration consumer\<close>

lemma expireBatch_Inr:
  "(\<exists>u. expireBatch expire items = Inr u) \<longleftrightarrow> (\<forall>item \<in> set items. \<not> isl (expire (data item)))"
proof -
  have "0 < length (filter P xs) \<longleftrightarrow> (\<exists>x \<in> set xs. P x)" for P and xs :: "'c list"
    by (induction xs) auto
  from this[of isl "map (\<lambda>item. expire (data item)) items"]
  have k: "0 < length (filter isl (map (\<lambda>item. expire (data item)) items))
        \<longleftrightarrow> (\<exists>item \<in> set items. isl (expire (data item)))"
    by (simp only: set_map bex_simps(7))
  show ?thesis unfolding expireBatch_def Let_def k by auto
qed

lemma handleReservationExpire_outcome:
  "handleReservationExpire expire rid m ch =
     ch @ [if isl (expire rid) then Nack m False True else Ack m]"
  by (cases "expire rid") (simp_all add: handleReservationExpire_def)

text \<open>
  Claim C8, amended.  \<open>BatchProcessor.flush\<close> with the consumer's processing function
  acknowledges every message of the batch when every \<open>expireReservation\<close> call of the
  batch was fulfilled, and otherwise rejects every message of the batch with requeue.
\<close>

theorem flush_all_or_nothing:
  assumes "\<not> processing bp" and "batch bp \<noteq> []"
  shows "channel (flush (expireBatch expire) bp) =
           channel bp @
             (if \<forall>item \<in> set (batch bp). \<not> isl (expire (data item))
              then map (\<lambda>item. Ack (message item)) (batch bp)
              else map (\<lambda>item. Nack (message item) False True) (batch bp))
    \<and> batch (flush (expireBatch expire) bp) = []
    \<and> \<not> processing (flush (expireBatch expire) bp)"
proof (cases "expireBatch expire (batch bp)")
    case (Inl e)
    with expireBatch_Inr[of expire "batch bp"]
    have "\<not> (\<forall>item \<in> set (batch bp). \<not> isl (expire (data item)))" by auto
    with Inl assms show ?thesis by (simp add: flush_def Let_def)
  next
    case (Inr u)
    with expireBatch_Inr[of expire "batch bp"]
    have "\<forall>item \<in> set (batch bp). \<not> isl (expire (data item))" by blast
    with Inr assms show ?thesis by (simp add: flush_def Let_def)
qed

theorem flush_all_or_nothing_witness:
  "\<not> processing mixedBatch \<and> batch mixedBatch \<noteq> []
   \<and> channel (flush (expireBatch mixedExpire) mixedBatch)
       = [Nack ''m1'' False True, Nack ''m2'' False True]
   \<and> channel (flush (expireBatch (\<lambda>rid. (Inr () :: store_error + unit))) mixedBatch)
       = [Ack ''m1'', Ack ''m2'']"
proof -
  have a: "\<not> processing mixedBatch" and b: "batch mixedBatch \<noteq> []"
    by (simp_all add: mixedBatch_def)
  have "channel (flush (expireBatch mixedExpire) mixedBatch) =
           channel mixedBatch @
             (if \<forall>item \<in> set (batch mixedBatch). \<not> isl (mixedExpire (data item))
              then map (\<lambda>item. Ack (message item)) (batch mixedBatch)
              else map (\<lambda>item. Nack (message item) False True) (batch mixedBatch))"
    using flush_all_or_nothing[OF a b, of mixedExpire] by blast
  also have "\<dots> = [Nack ''m1'' False True, Nack ''m2'' False True]"
    by (simp add: mixedBatch_def mixedExpire_def)
  finally have c: "channel (flush (expireBatch mixedExpire) mixedBatch)
       = [Nack ''m1'' False True, Nack ''m2'' False True]" .
  let ?ok = "\<lambda>rid::nat. (Inr () :: store_error + unit)"
  have "channel (flush (expireBatch ?ok) mixedBatch) =
           channel mixedBatch @
             (if \<forall>item \<in> set (batch mixedBatch). \<not> isl (?ok (data item))
              then map (\<lambda>item. Ack (message item)) (batch mixedBatch)
              else map (\<lambda>item. Nack (message item) False True) (batch mixedBatch))"
    using flush_all_or_nothing[OF a b, of ?ok] by blast
  also have "\<dots> = [Ack ''m1'', Ack ''m2'']"
    by (simp add: mixedBatch_def)
  finally show ?thesis using a b c by simp
qed

text \<open>
  Claim C8 as stated fails: in a batch of two where the first expiry succeeds and the
  second fails, the first message is rejected too.
\<close>

theorem flush_mixed_batch_counterexample:
  "mixedExpire 100 = Inr () \<and> mixedExpire 200 = Inl QueryFailedError
   \<and> channel (flush (expireBatch mixedExpire) mixedBatch)
       = [Nack ''m1'' False True, Nack ''m2'' False True]"
  by code_simp

section \<open>The store invariant\<close>

lemma update_count:
  assumes "distinct (map key xs)" "r \<in> set xs"
  shows "length (filter P (map (\<lambda>x. if key x = key r then f x else x) xs)) + of_bool (P r)
         = length (filter P xs) + of_bool (P (f r))"
  using assms
proof (induction xs)
  case Nil
  then show ?case by simp
next
  case (Cons a xs)
  show ?case
  proof (cases "a = r")
    case True
    with Cons.prems have "\<forall>x \<in> set xs. key x \<noteq> key r" by (auto simp: image_iff)
    then have "map (\<lambda>x. if key x = key r then f x else x) xs = xs"
      by (simp add: map_idI)
    with True show ?thesis by simp
  next
    case False
    with Cons.prems have "r \<in> set xs" "key a \<noteq> key r" "distinct (map key xs)"
      by (auto simp: image_iff)
    with Cons.IH show ?thesis by simp
  qed
qed

lemma saveReservation_status:
  assumes "distinct (map reservation_id (reservations s))" "r \<in> set (reservations s)"
  shows "reservations (saveReservation (r\<lparr>status := st\<rparr>) s) =
           map (\<lambda>x. if reservation_id x = reservation_id r then x\<lparr>status := st\<rparr> else x)
             (reservations s)"
  using update_distinct_row[OF assms, of "\<lambda>x. x\<lparr>status := st\<rparr>"]
  by (simp add: saveReservation_def)

lemma pendingOn_status_update:
  assumes "distinct (map reservation_id (reservations s))" "r \<in> set (reservations s)"
    and "reservations s' =
           map (\<lambda>x. if reservation_id x = reservation_id r then x\<lparr>status := st\<rparr> else x)
             (reservations s)"
  shows "length (pendingOn s' j) + of_bool (seatId r = j \<and> status r = PENDING)
         = length (pendingOn s j) + of_bool (seatId r = j \<and> st = PENDING)"
    and "length (confirmedOn s' j) + of_bool (seatId r = j \<and> status r = CONFIRMED)
         = length (confirmedOn s j) + of_bool (seatId r = j \<and> st = CONFIRMED)"
  using update_count[OF assms(1,2), of "\<lambda>x. seatId x = j \<and> status x = PENDING" "\<lambda>x. x\<lparr>status := st\<rparr>"]
    update_count[OF assms(1,2), of "\<lambda>x. seatId x = j \<and> status x = CONFIRMED" "\<lambda>x. x\<lparr>status := st\<rparr>"]
  by (simp_all add: pendingOn_def confirmedOn_def assms(3))

lemma seatStrict_counts:
  "seatStrict s seat \<longleftrightarrow>
     (length (pendingOn s (seat_id seat)), length (confirmedOn s (seat_id seat))) =
       (case seat_status seat of AVAILABLE \<Rightarrow> (0, 0) | RESERVED \<Rightarrow> (1, 0) | SOLD \<Rightarrow> (0, 1))"
  by (cases "seat_status seat") (auto simp: seatStrict_def)

lemma seatStrict_cong:
  assumes "seat_id seat' = seat_id seat" "seat_status seat' = seat_status seat"
    "length (pendingOn s' (seat_id seat)) = length (pendingOn s (seat_id seat))"
    "length (confirmedOn s' (seat_id seat)) = length (confirmedOn s (seat_id seat))"
  shows "seatStrict s' seat' = seatStrict s seat"
  by (simp add: seatStrict_counts assms)

lemma storeInvariant_pending_seat:
  assumes inv: "storeInvariant s" and r: "r \<in> set (reservations s)" "status r = PENDING"
    and seat: "seat \<in> set (seats s)" "seat_id seat = seatId r"
  shows "seat_status seat = RESERVED" "length (pendingOn s (seatId r)) = 1"
    "length (confirmedOn s (seatId r)) = 0"
proof -
  from inv seat(1) have st: "seatStrict s seat" by (simp add: storeInvariant_def)
  have "r \<in> set (pendingOn s (seatId r))" using r by (simp add: pendingOn_def)
  then have "0 < length (pendingOn s (seatId r))" by auto
  with st seat(2) show "seat_status seat = RESERVED" "length (pendingOn s (seatId r)) = 1"
    "length (confirmedOn s (seatId r)) = 0"
    by (cases "seat_status seat"; simp add: seatStrict_counts)+
qed

lemma storeInvariant_no_sale_of_pending:
  assumes inv: "storeInvariant s" and r: "r \<in> set (reservations s)" "status r \<noteq> CONFIRMED"
  shows "salesOf s (reservation_id r) = []"
  using assms by (auto simp: storeInvariant_def salesMatch_def salesOf_def filter_empty_conv)

lemma seat_clause_transition:
  assumes d: "distinct (map seat_id (seats s))"
    and old: "\<forall>y \<in> set (seats s). seatStrict s y"
    and seats': "seats s' =
        map (\<lambda>x. if seat_id x = i then x\<lparr>seat_status := sst\<rparr> else x) (seats s)"
    and others: "\<And>j. j \<noteq> i \<Longrightarrow>
        length (pendingOn s' j) = length (pendingOn s j)
        \<and> length (confirmedOn s' j) = length (confirmedOn s j)"
    and target: "(length (pendingOn s' i), length (confirmedOn s' i)) =
        (case sst of AVAILABLE \<Rightarrow> (0, 0) | RESERVED \<Rightarrow> (1, 0) | SOLD \<Rightarrow> (0, 1))"
  shows "\<forall>y \<in> set (seats s'). seatStrict s' y"
proof
  fix y' assume "y' \<in> set (seats s')"
  then obtain y where y: "y \<in> set (seats s)"
    and y': "y' = (if seat_id y = i then y\<lparr>seat_status := sst\<rparr> else y)"
    by (auto simp: seats')
  show "seatStrict s' y'"
  proof (cases "seat_id y = i")
    case True
    with y' target show ?thesis by (simp add: seatStrict_counts)
  next
    case False
    with y' have "y' = y" by simp
    moreover from old y have "seatStrict s y" by simp
    ultimately show ?thesis using others[OF False] by (simp add: seatStrict_counts)
  qed
qed

text \<open>The two writes shared by expiry and confirmation: a pending reservation leaves
  \<open>PENDING\<close> and its seat gets a new status.\<close>

lemma transition_tables:
  assumes inv: "storeInvariant s"
    and r: "r \<in> set (reservations s)"
    and seat: "seat \<in> set (seats s)"
    and s': "s' = saveSeat (seat\<lparr>seat_status := sst\<rparr>) (saveReservation (r\<lparr>status := rst\<rparr>) s)"
  shows "seats s' = map (\<lambda>x. if seat_id x = seat_id seat then x\<lparr>seat_status := sst\<rparr> else x) (seats s)"
    and "reservations s' =
           map (\<lambda>x. if reservation_id x = reservation_id r then x\<lparr>status := rst\<rparr> else x)
             (reservations s)"
    and "sales s' = sales s" and "sessions s' = sessions s" and "nextId s' = nextId s"
proof -
  from inv have dr: "distinct (map reservation_id (reservations s))"
    and ds: "distinct (map seat_id (seats s))"
    by (auto simp: storeInvariant_def pkUnique_def)
  let ?s1 = "saveReservation (r\<lparr>status := rst\<rparr>) s"
  have s1: "seats ?s1 = seats s" by (simp add: saveReservation_def)
  from ds seat have "distinct (map seat_id (seats ?s1))" "seat \<in> set (seats ?s1)"
    by (simp_all add: s1)
  from saveSeat_status[OF this, of sst]
  show "seats s' = map (\<lambda>x. if seat_id x = seat_id seat then x\<lparr>seat_status := sst\<rparr> else x) (seats s)"
    by (simp add: s' s1)
  from saveReservation_status[OF dr r, of rst]
  show "reservations s' =
           map (\<lambda>x. if reservation_id x = reservation_id r then x\<lparr>status := rst\<rparr> else x)
             (reservations s)"
    by (simp add: s' saveSeat_def)
  show "sales s' = sales s" "sessions s' = sessions s" "nextId s' = nextId s"
    by (simp_all add: s' saveSeat_def saveReservation_def)
qed

lemma seatById_status_update:
  assumes "seats s' = map (\<lambda>x. if seat_id x = i then x\<lparr>seat_status := sst\<rparr> else x) (seats s)"
  shows "seatById s' j =
           map_option (\<lambda>x. if seat_id x = i then x\<lparr>seat_status := sst\<rparr> else x) (seatById s j)"
proof -
  have "find (\<lambda>x. seat_id (if seat_id x = i then x\<lparr>seat_status := sst\<rparr> else x) = j) (seats s)
        = find (\<lambda>x. seat_id x = j) (seats s)"
    by (rule find_cong_set) auto
  then show ?thesis unfolding seatById_def assms find_map_upd by simp
qed

lemma transition_structure:
  assumes inv: "storeInvariant s"
    and seats': "seats s' =
        map (\<lambda>x. if seat_id x = i then x\<lparr>seat_status := sst\<rparr> else x) (seats s)"
    and res': "reservations s' =
           map (\<lambda>x. if reservation_id x = rid then x\<lparr>status := rst\<rparr> else x) (reservations s)"
    and same: "sales s' = sales s" "sessions s' = sessions s" "nextId s' = nextId s"
  shows "pkUnique s'" "idsAllocated s'" "foreignKeys s'"
proof -
  have ids: "map seat_id (seats s') = map seat_id (seats s)"
    "map reservation_id (reservations s') = map reservation_id (reservations s)"
    by (simp_all add: seats' res')
  from inv show "pkUnique s'"
    by (simp add: storeInvariant_def pkUnique_def ids)
  from inv have "idsAllocated s" by (simp add: storeInvariant_def)
  then show "idsAllocated s'"
    by (auto simp: idsAllocated_def res' same)
  from inv have fk: "foreignKeys s" by (simp add: storeInvariant_def)
  have fs: "findSession s' = findSession s" by (simp add: findSession_def fun_eq_iff same)
  show "foreignKeys s'"
    unfolding foreignKeys_def
  proof (intro conjI ballI)
    fix y assume "y \<in> set (seats s')"
    then obtain x where "x \<in> set (seats s)" "sessionId y = sessionId x"
      by (auto simp: seats' split: if_splits)
    with fk show "findSession s' (sessionId y) \<noteq> None" by (simp add: fs foreignKeys_def)
  next
    fix y assume "y \<in> set (reservations s')"
    then obtain x where "x \<in> set (reservations s)" "seatId y = seatId x"
      by (auto simp: res' split: if_splits)
    with fk show "seatById s' (seatId y) \<noteq> None"
      by (simp add: foreignKeys_def seatById_status_update[OF seats'])
  next
    fix y assume "y \<in> set (sales s')"
    with fk show "seatById s' (sale_seatId y) \<noteq> None"
      by (simp add: foreignKeys_def same seatById_status_update[OF seats'])
  qed
qed

lemma transition_seats:
  assumes inv: "storeInvariant s"
    and r: "r \<in> set (reservations s)" "status r = PENDING"
    and seat: "seat \<in> set (seats s)" "seat_id seat = seatId r"
    and seats': "seats s' =
        map (\<lambda>x. if seat_id x = seat_id seat then x\<lparr>seat_status := sst\<rparr> else x) (seats s)"
    and res': "reservations s' =
           map (\<lambda>x. if reservation_id x = reservation_id r then x\<lparr>status := rst\<rparr> else x)
             (reservations s)"
    and pair: "(rst = EXPIRED \<and> sst = AVAILABLE) \<or> (rst = CONFIRMED \<and> sst = SOLD)"
  shows "\<forall>y \<in> set (seats s'). seatStrict s' y"
proof -
  from inv have dr: "distinct (map reservation_id (reservations s))"
    and ds: "distinct (map seat_id (seats s))"
    and old: "\<forall>y \<in> set (seats s). seatStrict s y"
    by (auto simp: storeInvariant_def pkUnique_def)
  note cnt = pendingOn_status_update[OF dr r(1) res']
  note now = storeInvariant_pending_seat[OF inv r seat]
  show ?thesis
  proof (rule seat_clause_transition[OF ds old seats'])
    fix j assume "j \<noteq> seat_id seat"
    with cnt[of j] seat(2) r(2)
    show "length (pendingOn s' j) = length (pendingOn s j)
        \<and> length (confirmedOn s' j) = length (confirmedOn s j)" by simp
  next
    from cnt[of "seatId r"] now r(2) pair
    show "(length (pendingOn s' (seat_id seat)), length (confirmedOn s' (seat_id seat))) =
        (case sst of AVAILABLE \<Rightarrow> (0, 0) | RESERVED \<Rightarrow> (1, 0) | SOLD \<Rightarrow> (0, 1))"
      by (auto simp: seat(2))
  qed
qed

lemma storeInvariant_expire_step:
  assumes inv: "storeInvariant s"
    and r: "r \<in> set (reservations s)" "status r = PENDING"
    and seat: "seat \<in> set (seats s)" "seat_id seat = seatId r"
  shows "storeInvariant (saveReservation (r\<lparr>status := EXPIRED\<rparr>)
           (saveSeat (seat\<lparr>seat_status := AVAILABLE\<rparr>) s))"
proof -
  let ?s' = "saveSeat (seat\<lparr>seat_status := AVAILABLE\<rparr>) (saveReservation (r\<lparr>status := EXPIRED\<rparr>) s)"
  have comm: "saveReservation (r\<lparr>status := EXPIRED\<rparr>) (saveSeat (seat\<lparr>seat_status := AVAILABLE\<rparr>) s) = ?s'"
    by (simp add: saveReservation_def saveSeat_def)
  note t = transition_tables[OF inv r(1) seat(1) refl, of AVAILABLE EXPIRED]
  note st = transition_structure[OF inv t]
  have seats: "\<forall>y \<in> set (seats ?s'). seatStrict ?s' y"
    by (rule transition_seats[OF inv r seat t(1,2)]) simp
  from inv have dr: "distinct (map reservation_id (reservations s))"
    and sm: "salesMatch s"
    by (auto simp: storeInvariant_def pkUnique_def)
  from storeInvariant_no_sale_of_pending[OF inv r(1)] r(2)
  have nosale: "\<forall>x \<in> set (sales s). reservationId x \<noteq> reservation_id r"
    by (auto simp: salesOf_def filter_empty_conv)
  have "salesMatch ?s'"
    unfolding salesMatch_def
  proof (intro conjI ballI impI)
    fix x y assume "x \<in> set (sales ?s')" "y \<in> set (reservations ?s')"
      "reservation_id y = reservationId x"
    with nosale sm show "status y = CONFIRMED"
      by (auto simp: t salesMatch_def split: if_splits)
  next
    fix y assume "y \<in> set (reservations ?s')" "status y = CONFIRMED"
    then have "y \<in> set (reservations s)"
      by (auto simp: t(2) split: if_splits)
    with sm \<open>status y = CONFIRMED\<close> show "length (salesOf ?s' (reservation_id y)) = 1"
      by (simp add: salesMatch_def salesOf_def t(3))
  qed
  with st seats show ?thesis unfolding comm by (simp add: storeInvariant_def)
qed

lemma storeInvariant_expireReservation:
  assumes "storeInvariant s"
  shows "storeInvariant (expireReservation rid now s)"
proof (cases "\<exists>r seat. lockReservationWithSeat s rid = Some (r, seat) \<and> status r = PENDING
            \<and> expiresAt r < now")
  case False
  then show ?thesis using assms by (simp add: expire_noop)
next
  case True
  then obtain r seat where l: "lockReservationWithSeat s rid = Some (r, seat)"
    and p: "status r = PENDING" and t: "expiresAt r < now" by blast
  from lockReservationWithSeat_Some[OF l] seatById_Some[of s "seatId r" seat]
  have "r \<in> set (reservations s)" "seat \<in> set (seats s)" "seat_id seat = seatId r" by auto
  from storeInvariant_expire_step[OF assms this(1) p this(2,3)] expire_effect(1)[OF l p t]
  show ?thesis by simp
qed

lemma storeInvariant_confirmOne:
  assumes inv: "storeInvariant s"
    and r: "r \<in> set (reservations s)" "status r = PENDING"
    and seat: "seat \<in> set (seats s)" "seat_id seat = seatId r"
  shows "storeInvariant (snd (confirmOne paid dbNow (r, seat, session) s))"
proof -
  let ?s1 = "saveSeat (seat\<lparr>seat_status := SOLD\<rparr>) (saveReservation (r\<lparr>status := CONFIRMED\<rparr>) s)"
  let ?sale = "\<lparr>sale_id = nextId s, sale_seatId = seat_id seat, sale_userId = userId r,
                 reservationId = reservation_id r, amount = ticketPrice session, paidAt = paid,
                 sale_createdAt = dbNow\<rparr>"
  let ?s2 = "snd (confirmOne paid dbNow (r, seat, session) s)"
  note t = transition_tables[OF inv r(1) seat(1) refl, of SOLD CONFIRMED]
  note st = transition_structure[OF inv t]
  have seats1: "\<forall>y \<in> set (seats ?s1). seatStrict ?s1 y"
    by (rule transition_seats[OF inv r seat t(1,2)]) simp
  have s2: "seats ?s2 = seats ?s1" "reservations ?s2 = reservations ?s1"
    "sessions ?s2 = sessions ?s1" "sales ?s2 = sales s @ [?sale]" "nextId ?s2 = Suc (nextId s)"
    by (simp_all add: confirmOne_def insertSale_def Let_def t(3,5))
  from inv have dr: "distinct (map reservation_id (reservations s))"
    and sm: "salesMatch s" and ia: "idsAllocated s"
    by (auto simp: storeInvariant_def pkUnique_def)
  from storeInvariant_no_sale_of_pending[OF inv r(1)] r(2)
  have nosale: "\<forall>x \<in> set (sales s). reservationId x \<noteq> reservation_id r"
    by (auto simp: salesOf_def filter_empty_conv)
  have pk: "pkUnique ?s2" using st(1) by (simp add: pkUnique_def s2)
  have ids: "idsAllocated ?s2"
    using st(2) ia r(1) by (auto simp: idsAllocated_def s2 t(3,5))
  have sb: "seatById ?s2 = seatById ?s1" by (simp add: seatById_def fun_eq_iff s2)
  have fs: "findSession ?s2 = findSession ?s1" by (simp add: findSession_def fun_eq_iff s2)
  from inv seat(1) have "seatById s (seat_id seat) = Some seat"
    by (simp add: storeInvariant_def pkUnique_def seatById_distinct)
  then have "seatById ?s1 (seat_id seat) \<noteq> None"
    by (simp add: seatById_status_update[OF t(1)])
  with st(3) have fk: "foreignKeys ?s2"
    by (auto simp: foreignKeys_def sb fs s2 t(3))
  have po: "pendingOn ?s2 = pendingOn ?s1" "confirmedOn ?s2 = confirmedOn ?s1"
    by (simp_all add: pendingOn_def confirmedOn_def fun_eq_iff s2)
  have "seatStrict ?s2 y = seatStrict ?s1 y" for y
    unfolding seatStrict_def po ..
  with seats1 have seats2: "\<forall>y \<in> set (seats ?s2). seatStrict ?s2 y"
    unfolding s2(1) by simp
  have "salesMatch ?s2"
    unfolding salesMatch_def
  proof (intro conjI ballI impI)
    fix x y assume x: "x \<in> set (sales ?s2)" and y: "y \<in> set (reservations ?s2)"
      and e: "reservation_id y = reservationId x"
    from y obtain y0 where y0: "y0 \<in> set (reservations s)"
      "y = (if reservation_id y0 = reservation_id r then y0\<lparr>status := CONFIRMED\<rparr> else y0)"
      by (auto simp: s2 t(2))
    show "status y = CONFIRMED"
    proof (cases "reservation_id y0 = reservation_id r")
      case True
      with y0 show ?thesis by simp
    next
      case False
      with y0 have "y = y0" by simp
      with False e x have "x \<in> set (sales s)" by (auto simp: s2)
      with sm y0(1) e \<open>y = y0\<close> show ?thesis by (auto simp: salesMatch_def)
    qed
  next
    fix y assume y: "y \<in> set (reservations ?s2)" and c: "status y = CONFIRMED"
    from y obtain y0 where y0: "y0 \<in> set (reservations s)"
      "y = (if reservation_id y0 = reservation_id r then y0\<lparr>status := CONFIRMED\<rparr> else y0)"
      by (auto simp: s2 t(2))
    show "length (salesOf ?s2 (reservation_id y)) = 1"
    proof (cases "reservation_id y0 = reservation_id r")
      case True
      with y0 have "reservation_id y = reservation_id r" by simp
      moreover from nosale have "filter (\<lambda>x. reservationId x = reservation_id r) (sales s) = []"
        by (simp add: filter_empty_conv)
      ultimately show ?thesis by (simp add: salesOf_def s2)
    next
      case False
      with y0 have "y = y0" by simp
      with sm y0(1) c have "length (salesOf s (reservation_id y)) = 1"
        by (simp add: salesMatch_def)
      with False \<open>y = y0\<close> show ?thesis by (simp add: salesOf_def s2)
    qed
  qed
  with pk ids fk seats2 show ?thesis by (simp add: storeInvariant_def)
qed

lemma storeInvariant_reserveSeat:
  assumes inv: "storeInvariant s"
    and step: "reserveSeat sid user expires dbNow l s = (w, Inr dto)"
  shows "storeInvariant w"
proof -
  from inv have ds: "distinct (map seat_id (seats s))"
    and dr: "distinct (map reservation_id (reservations s))"
    and sm: "salesMatch s" and ia: "idsAllocated s" and fk: "foreignKeys s"
    and old: "\<forall>y \<in> set (seats s). seatStrict s y"
    by (auto simp: storeInvariant_def pkUnique_def)
  from step obtain seat where l: "lockSeat s sid l = Some seat"
    and a: "seat_status seat = AVAILABLE"
    and w: "w = snd (insertReservation (seat_id seat) user expires dbNow
                (saveSeat (seat\<lparr>seat_status := RESERVED\<rparr>) s))"
    by (rule reserveSeat_Inr)
  from lockSeat_Some[OF l] have sin: "seat \<in> set (seats s)" by simp
  let ?new = "\<lparr>reservation_id = nextId s, seatId = seat_id seat, userId = user,
                 status = PENDING, expiresAt = expires, createdAt = dbNow\<rparr>"
  have tw: "seats w = map (\<lambda>x. if seat_id x = seat_id seat then x\<lparr>seat_status := RESERVED\<rparr> else x) (seats s)"
    "reservations w = reservations s @ [?new]" "sales w = sales s" "sessions w = sessions s"
    "nextId w = Suc (nextId s)"
    using saveSeat_status[OF ds sin, of RESERVED]
    by (simp_all add: w insertReservation_def Let_def saveSeat_def)
  have fresh: "nextId s \<notin> reservation_id ` set (reservations s)"
    using ia by (auto simp: idsAllocated_def)
  have "map seat_id (seats w) = map seat_id (seats s)" by (simp add: tw(1))
  then have pk: "pkUnique w" using ds dr fresh by (simp add: pkUnique_def tw(2))
  have ids: "idsAllocated w" using ia by (auto simp: idsAllocated_def tw)
  have fs: "findSession w = findSession s" by (simp add: findSession_def fun_eq_iff tw)
  from seatById_distinct[OF ds sin]
  have "seatById w (seat_id seat) \<noteq> None" by (simp add: seatById_status_update[OF tw(1)])
  with fk have fk': "foreignKeys w"
    by (auto simp: foreignKeys_def fs tw(2,3) seatById_status_update[OF tw(1)] tw(1))
  have sm': "salesMatch w"
    using sm ia by (auto simp: salesMatch_def tw salesOf_def idsAllocated_def)
  from old sin a have zero: "length (pendingOn s (seat_id seat)) = 0"
    "length (confirmedOn s (seat_id seat)) = 0"
    by (auto simp: seatStrict_def)
  have seats: "\<forall>y \<in> set (seats w). seatStrict w y"
  proof (rule seat_clause_transition[OF ds old tw(1)])
    fix j assume "j \<noteq> seat_id seat"
    then show "length (pendingOn w j) = length (pendingOn s j)
        \<and> length (confirmedOn w j) = length (confirmedOn s j)"
      by (simp add: pendingOn_def confirmedOn_def tw(2))
  next
    show "(length (pendingOn w (seat_id seat)), length (confirmedOn w (seat_id seat))) =
        (case RESERVED of AVAILABLE \<Rightarrow> (0, 0) | RESERVED \<Rightarrow> (1, 0) | SOLD \<Rightarrow> (0, 1))"
      using zero by (simp add: pendingOn_def confirmedOn_def tw(2))
  qed
  from pk ids fk' sm' seats show ?thesis by (simp add: storeInvariant_def)
qed

lemma storeInvariant_reserveSeats:
  assumes "storeInvariant s"
    and "reserveSeats sid user expires dbNow labels acc s = (w, res)"
  shows "storeInvariant w"
  using assms
proof (induction labels arbitrary: acc s)
  case Nil
  then show ?case by simp
next
  case (Cons l rest)
  show ?case
  proof (cases "reserveSeat sid user expires dbNow l s")
    case (Pair w1 r1)
    show ?thesis
    proof (cases r1)
      case (Inl e)
      with Pair Cons.prems(2) have "w = w1" by simp
      moreover from reserveSeat_Inl[of sid user expires dbNow l s w1 e] Pair Inl
      have "w1 = s" by simp
      ultimately show ?thesis using Cons.prems(1) by simp
    next
      case (Inr dto)
      with Pair have step: "reserveSeat sid user expires dbNow l s = (w1, Inr dto)" by simp
      from Pair Inr Cons.prems(2)
      have "reserveSeats sid user expires dbNow rest (acc @ [dto]) w1 = (w, res)" by simp
      from Cons.IH[OF storeInvariant_reserveSeat[OF Cons.prems(1) step] this]
      show ?thesis .
    qed
  qed
qed

lemma storeInvariant_createReservation:
  assumes "storeInvariant s"
  shows "storeInvariant (fst (createReservation ttl dto now dbNow s))"
proof (cases "findSession s (cr_sessionId dto)")
  case None
  with assms show ?thesis by (simp add: createReservation_def)
next
  case (Some session)
  obtain w res where
    l: "reserveSeats (session_id session) (cr_userId dto) (now + ttl * 1000) dbNow
          (sort (seatNumbers dto)) [] s = (w, res)"
    by (cases "reserveSeats (session_id session) (cr_userId dto) (now + ttl * 1000) dbNow
          (sort (seatNumbers dto)) [] s")
  from storeInvariant_reserveSeats[OF assms l] have "storeInvariant w" .
  with assms Some l show ?thesis
    by (cases res) (simp_all add: createReservation_def)
qed

lemma confirmOne_tables:
  assumes inv: "storeInvariant s"
    and r: "r \<in> set (reservations s)" and seat: "seat \<in> set (seats s)"
    and s1: "s1 = snd (confirmOne paid dbNow (r, seat, session) s)"
  shows "reservations s1 =
           map (\<lambda>x. if reservation_id x = reservation_id r then x\<lparr>status := CONFIRMED\<rparr> else x)
             (reservations s)"
    and "seats s1 = map (\<lambda>x. if seat_id x = seat_id seat then x\<lparr>seat_status := SOLD\<rparr> else x) (seats s)"
    and "sales s1 = sales s @ [mkSale paid dbNow (nextId s) (r, seat, session)]"
    and "sessions s1 = sessions s" and "nextId s1 = Suc (nextId s)"
    and "fst (confirmOne paid dbNow (r, seat, session) s) = mkSale paid dbNow (nextId s) (r, seat, session)"
proof -
  note t = transition_tables[OF inv r seat refl, of SOLD CONFIRMED]
  show "reservations s1 =
           map (\<lambda>x. if reservation_id x = reservation_id r then x\<lparr>status := CONFIRMED\<rparr> else x)
             (reservations s)"
    "seats s1 = map (\<lambda>x. if seat_id x = seat_id seat then x\<lparr>seat_status := SOLD\<rparr> else x) (seats s)"
    "sales s1 = sales s @ [mkSale paid dbNow (nextId s) (r, seat, session)]"
    "sessions s1 = sessions s" "nextId s1 = Suc (nextId s)"
    "fst (confirmOne paid dbNow (r, seat, session) s) = mkSale paid dbNow (nextId s) (r, seat, session)"
    using t by (simp_all add: s1 confirmOne_def insertSale_def Let_def mkSale_def)
qed

lemma two_pending_same_seat:
  assumes "a \<in> set (reservations s)" "b \<in> set (reservations s)" "a \<noteq> b"
    "status a = PENDING" "status b = PENDING" "seatId a = seatId b"
  shows "2 \<le> length (pendingOn s (seatId a))"
proof -
  have "a \<in> set (pendingOn s (seatId a))" "b \<in> set (pendingOn s (seatId a))"
    using assms by (simp_all add: pendingOn_def)
  then have "{a, b} \<subseteq> set (pendingOn s (seatId a))" by simp
  then have "card {a, b} \<le> card (set (pendingOn s (seatId a)))"
    by (intro card_mono) simp_all
  also have "\<dots> \<le> length (pendingOn s (seatId a))" by (rule card_length)
  finally show ?thesis using assms(3) by simp
qed

lemma groupReady_step:
  assumes inv: "storeInvariant s" and g: "groupReady s (m # ms)"
  shows "groupReady (snd (confirmOne paid dbNow m s)) ms"
proof -
  obtain r seat session where m: "m = (r, seat, session)" by (cases m) auto
  from g m have r: "r \<in> set (reservations s)" "status r = PENDING"
    and seat: "seat \<in> set (seats s)" "seat_id seat = seatId r"
    by (auto simp: groupReady_def)
  note t = confirmOne_tables[OF inv r(1) seat(1) refl, of paid dbNow session]
  note one = storeInvariant_pending_seat[OF inv r seat]
  show ?thesis
    unfolding groupReady_def
  proof (rule conjI)
    from g show "distinct (map (\<lambda>m. reservation_id (fst m)) ms)" by (simp add: groupReady_def)
  next
    let ?s1 = "snd (confirmOne paid dbNow m s)"
    show "\<forall>m \<in> set ms. fst m \<in> set (reservations ?s1) \<and> status (fst m) = PENDING
            \<and> fst (snd m) \<in> set (seats ?s1) \<and> seat_id (fst (snd m)) = seatId (fst m)"
    proof (rule ballI)
    fix m' assume m': "m' \<in> set ms"
    with g m have ne: "reservation_id (fst m') \<noteq> reservation_id r"
      and r': "fst m' \<in> set (reservations s)" "status (fst m') = PENDING"
      and seat': "fst (snd m') \<in> set (seats s)" "seat_id (fst (snd m')) = seatId (fst m')"
      by (auto simp: groupReady_def image_iff)
    from ne have "fst m' \<noteq> r" by auto
    have "seatId (fst m') \<noteq> seatId r"
    proof
      assume "seatId (fst m') = seatId r"
      from two_pending_same_seat[OF r(1) r'(1) \<open>fst m' \<noteq> r\<close>[symmetric] r(2) r'(2) this[symmetric]]
        one(2) show False by simp
    qed
    with seat' seat(2) have "seat_id (fst (snd m')) \<noteq> seat_id seat" by simp
    with seat'(1) have "fst (snd m') \<in> set (seats (snd (confirmOne paid dbNow m s)))"
      unfolding m t(2) by (auto simp: image_iff intro!: bexI[of _ "fst (snd m')"])
    moreover from ne r'(1) have "fst m' \<in> set (reservations (snd (confirmOne paid dbNow m s)))"
      unfolding m t(1) by (auto simp: image_iff intro!: bexI[of _ "fst m'"])
    ultimately show "fst m' \<in> set (reservations (snd (confirmOne paid dbNow m s)))
        \<and> status (fst m') = PENDING
        \<and> fst (snd m') \<in> set (seats (snd (confirmOne paid dbNow m s)))
        \<and> seat_id (fst (snd m')) = seatId (fst m')"
      using r'(2) seat'(2) by simp
    qed
  qed
qed

lemma confirmAll_effect:
  assumes "storeInvariant s" and "groupReady s ms"
    and "confirmAll paid dbNow ms acc s = (newSales, w)"
  shows "storeInvariant w"
    and "reservations w =
           map (\<lambda>x. if reservation_id x \<in> (\<lambda>m. reservation_id (fst m)) ` set ms
                    then x\<lparr>status := CONFIRMED\<rparr> else x) (reservations s)"
    and "seats w =
           map (\<lambda>x. if seat_id x \<in> (\<lambda>m. seat_id (fst (snd m))) ` set ms
                    then x\<lparr>seat_status := SOLD\<rparr> else x) (seats s)"
    and "sales w = sales s @ newSalesFrom paid dbNow (nextId s) ms"
    and "newSales = acc @ newSalesFrom paid dbNow (nextId s) ms"
    and "sessions w = sessions s" and "nextId w = nextId s + length ms"
  using assms
proof (induction ms arbitrary: acc s)
  case Nil
  {
    case 1 then show ?case by simp
  next
    case 2 then show ?case by simp
  next
    case 3 then show ?case by simp
  next
    case 4 then show ?case by simp
  next
    case 5 then show ?case by simp
  next
    case 6 then show ?case by simp
  next
    case 7 then show ?case by simp
  }
next
  case (Cons m ms)
  obtain r seat session where m: "m = (r, seat, session)" by (cases m) auto
  {
    fix acc s
    assume inv: "storeInvariant s" and g: "groupReady s (m # ms)"
      and run: "confirmAll paid dbNow (m # ms) acc s = (newSales, w)"
    let ?s1 = "snd (confirmOne paid dbNow m s)"
    from g m have r: "r \<in> set (reservations s)" "status r = PENDING"
      and seat: "seat \<in> set (seats s)" "seat_id seat = seatId r"
      by (auto simp: groupReady_def)
    note t = confirmOne_tables[OF inv r(1) seat(1) refl, of paid dbNow session]
    have inv1: "storeInvariant ?s1"
      unfolding m by (rule storeInvariant_confirmOne[OF inv r seat])
    have g1: "groupReady ?s1 ms" by (rule groupReady_step[OF inv g])
    from run have run1: "confirmAll paid dbNow ms (acc @ [mkSale paid dbNow (nextId s) m]) ?s1
        = (newSales, w)"
      using t(6) by (simp add: m split: prod.splits)
    note ih = Cons.IH[OF inv1 g1 run1]
    have "storeInvariant w" by (rule ih(1))
    moreover have "reservations w =
           map (\<lambda>x. if reservation_id x \<in> (\<lambda>m. reservation_id (fst m)) ` set (m # ms)
                    then x\<lparr>status := CONFIRMED\<rparr> else x) (reservations s)"
      unfolding ih(2) m t(1) by (auto simp: m)
    moreover have "seats w =
           map (\<lambda>x. if seat_id x \<in> (\<lambda>m. seat_id (fst (snd m))) ` set (m # ms)
                    then x\<lparr>seat_status := SOLD\<rparr> else x) (seats s)"
      unfolding ih(3) m t(2) by (auto simp: m)
    moreover have "sales w = sales s @ newSalesFrom paid dbNow (nextId s) (m # ms)"
      unfolding ih(4) using t(3,5) by (simp add: m)
    moreover have "newSales = acc @ newSalesFrom paid dbNow (nextId s) (m # ms)"
      unfolding ih(5) using t(5) by (simp add: m)
    moreover have "sessions w = sessions s" unfolding ih(6) using t(4) by (simp add: m)
    moreover have "nextId w = nextId s + length (m # ms)"
      unfolding ih(7) using t(5) by (simp add: m)
    ultimately have "storeInvariant w \<and> reservations w =
           map (\<lambda>x. if reservation_id x \<in> (\<lambda>m. reservation_id (fst m)) ` set (m # ms)
                    then x\<lparr>status := CONFIRMED\<rparr> else x) (reservations s)
       \<and> seats w =
           map (\<lambda>x. if seat_id x \<in> (\<lambda>m. seat_id (fst (snd m))) ` set (m # ms)
                    then x\<lparr>seat_status := SOLD\<rparr> else x) (seats s)
       \<and> sales w = sales s @ newSalesFrom paid dbNow (nextId s) (m # ms)
       \<and> newSales = acc @ newSalesFrom paid dbNow (nextId s) (m # ms)
       \<and> sessions w = sessions s \<and> nextId w = nextId s + length (m # ms)"
      by blast
  }
  note all = this
  {
    case 1 from all[OF 1] show ?case by blast
  next
    case 2 from all[OF 2] show ?case by blast
  next
    case 3 from all[OF 3] show ?case by blast
  next
    case 4 from all[OF 4] show ?case by blast
  next
    case 5 from all[OF 5] show ?case by blast
  next
    case 6 from all[OF 6] show ?case by blast
  next
    case 7 from all[OF 7] show ?case by blast
  }
qed

lemma joinSeatSession_Some:
  "joinSeatSession s r = Some m \<longleftrightarrow>
     (\<exists>seat session. m = (r, seat, session) \<and> seatById s (seatId r) = Some seat
        \<and> findSession s (sessionId seat) = Some session)"
  by (auto simp: joinSeatSession_def split: option.splits)

lemma joinSeatSession_None:
  "joinSeatSession s r = None \<longleftrightarrow>
     (\<forall>seat. seatById s (seatId r) = Some seat \<longrightarrow> findSession s (sessionId seat) = None)"
  by (auto simp: joinSeatSession_def split: option.splits)

lemma lockRelatedReservations_mem:
  "m \<in> set (lockRelatedReservations s user sess expires) \<longleftrightarrow>
     (\<exists>r seat session. m = (r, seat, session) \<and> r \<in> set (reservations s)
        \<and> seatById s (seatId r) = Some seat \<and> findSession s (sessionId seat) = Some session
        \<and> userId r = user \<and> sessionId seat = sess \<and> expiresAt r = expires
        \<and> status r = PENDING)"
  by (auto simp: lockRelatedReservations_def set_map_filter_iff joinSeatSession_Some)

lemma map_fst_joined:
  "map fst (List.map_filter (joinSeatSession s) rs) = filter (\<lambda>r. joinSeatSession s r \<noteq> None) rs"
  by (induction rs) (auto simp: joinSeatSession_Some joinSeatSession_None split: option.splits)

lemma distinct_related_ids:
  assumes "distinct (map reservation_id (reservations s))"
  shows "distinct (map (\<lambda>m. reservation_id (fst m)) (lockRelatedReservations s user sess expires))"
proof -
  let ?joined = "List.map_filter (joinSeatSession s) (reservations s)"
  have "map (\<lambda>m. reservation_id (fst m)) ?joined
        = map reservation_id (filter (\<lambda>r. joinSeatSession s r \<noteq> None) (reservations s))"
    using arg_cong[OF map_fst_joined[of s "reservations s"], of "map reservation_id"]
    by (simp add: comp_def)
  with assms have "distinct (map (\<lambda>m. reservation_id (fst m)) ?joined)"
    by (simp add: distinct_map_filter)
  then show ?thesis
    unfolding lockRelatedReservations_def by (rule distinct_map_filter)
qed

lemma groupReady_related:
  assumes "storeInvariant s"
  shows "groupReady s (lockRelatedReservations s user sess expires)"
proof -
  from assms have "distinct (map reservation_id (reservations s))"
    by (simp add: storeInvariant_def pkUnique_def)
  from distinct_related_ids[OF this] show ?thesis
    by (auto simp: groupReady_def lockRelatedReservations_mem dest: seatById_Some)
qed

lemma lockReservationForUser_find:
  "lockReservationForUser s rid user =
     Option.bind (find (\<lambda>r. reservation_id r = rid \<and> userId r = user
                          \<and> joinSeatSession s r \<noteq> None) (reservations s))
       (joinSeatSession s)"
  unfolding lockReservationForUser_def getOne_filter_map_filter
  by (rule arg_cong[where f = "\<lambda>z. Option.bind z (joinSeatSession s)"], rule find_cong_set)
    (auto simp: joinSeatSession_Some joinSeatSession_None split: option.splits)

lemma lockReservationForUser_Some:
  assumes "lockReservationForUser s rid user = Some (r, seat, session)"
  shows "r \<in> set (reservations s)" "reservation_id r = rid" "userId r = user"
    "seatById s (seatId r) = Some seat" "findSession s (sessionId seat) = Some session"
  using assms
  by (auto simp: lockReservationForUser_find find_Some_iff Option.bind_eq_Some_conv
      joinSeatSession_Some)

lemma target_in_group:
  assumes "lockReservationForUser s rid user = Some (r, seat, session)" "status r = PENDING"
  shows "(r, seat, session) \<in> set (lockRelatedReservations s (userId r) (sessionId seat) (expiresAt r))"
  using lockReservationForUser_Some[OF assms(1)] assms(2)
  by (auto simp: lockRelatedReservations_mem)

text \<open>The method with its \<open>try\<close> and \<open>catch\<close> blocks put together.\<close>

lemma confirmPayment_unfold:
  "confirmPayment dto now paid dbNow s =
     (case lockReservationForUser s (cp_reservationId dto) (cp_userId dto) of
        None \<Rightarrow> (s, Inl (ReservationNotFound (cp_reservationId dto)))
      | Some (reservation, seat, session) \<Rightarrow>
          if status reservation = CONFIRMED then
            (case find (\<lambda>x. reservationId x = reservation_id reservation) (sales s) of
               None \<Rightarrow> (s, Inl TransactionNotStartedError)
             | Some existingSale \<Rightarrow>
                 (s, case saleResponse s existingSale of
                       Inl e \<Rightarrow> Inl TransactionNotStartedError | Inr d \<Rightarrow> Inr d))
          else if status reservation \<noteq> PENDING then
            (s, Inl (ReservationNotPending (status reservation)))
          else if now > expiresAt reservation then (s, Inl ReservationHasExpired)
          else
            (case confirmAll paid dbNow
                    (lockRelatedReservations s (userId reservation) (sessionId seat)
                       (expiresAt reservation)) [] s of
               (newSales, w) \<Rightarrow>
                 (case find (\<lambda>x. reservationId x = reservation_id reservation) newSales of
                    None \<Rightarrow> (w, Inl TransactionNotStartedError)
                  | Some primarySale \<Rightarrow>
                      (case find (\<lambda>x. sale_id x = sale_id primarySale) (sales w) of
                         None \<Rightarrow> (w, Inl TransactionNotStartedError)
                       | Some saleWithRelations \<Rightarrow>
                           (w, case saleResponse w saleWithRelations of
                                 Inl e \<Rightarrow> Inl TransactionNotStartedError | Inr d \<Rightarrow> Inr d)))))"
  by (simp add: confirmPayment_def confirmPayment_try_def rollbackTransaction_def
      split: option.splits sum.splits prod.splits)

text \<open>The paths of the call.\<close>

lemma confirmPayment_cases:
  obtains (missing) "lockReservationForUser s (cp_reservationId dto) (cp_userId dto) = None"
      "confirmPayment dto now paid dbNow s = (s, Inl (ReservationNotFound (cp_reservationId dto)))"
  | (replay) r seat session where
      "lockReservationForUser s (cp_reservationId dto) (cp_userId dto) = Some (r, seat, session)"
      "status r = CONFIRMED"
      "confirmPayment dto now paid dbNow s =
         (case find (\<lambda>x. reservationId x = reservation_id r) (sales s) of
            None \<Rightarrow> (s, Inl TransactionNotStartedError)
          | Some existingSale \<Rightarrow>
              (s, case saleResponse s existingSale of
                    Inl e \<Rightarrow> Inl TransactionNotStartedError | Inr d \<Rightarrow> Inr d))"
  | (refused) r seat session e where
      "lockReservationForUser s (cp_reservationId dto) (cp_userId dto) = Some (r, seat, session)"
      "status r \<noteq> CONFIRMED" "status r \<noteq> PENDING \<or> expiresAt r < now"
      "confirmPayment dto now paid dbNow s = (s, Inl e)"
      "e = ReservationNotPending (status r) \<or> e = ReservationHasExpired"
  | (confirm) r seat session newSales w where
      "lockReservationForUser s (cp_reservationId dto) (cp_userId dto) = Some (r, seat, session)"
      "status r = PENDING" "now \<le> expiresAt r"
      "confirmAll paid dbNow
         (lockRelatedReservations s (userId r) (sessionId seat) (expiresAt r)) [] s = (newSales, w)"
      "confirmPayment dto now paid dbNow s =
         (case find (\<lambda>x. reservationId x = reservation_id r) newSales of
            None \<Rightarrow> (w, Inl TransactionNotStartedError)
          | Some primarySale \<Rightarrow>
              (case find (\<lambda>x. sale_id x = sale_id primarySale) (sales w) of
                 None \<Rightarrow> (w, Inl TransactionNotStartedError)
               | Some saleWithRelations \<Rightarrow>
                   (w, case saleResponse w saleWithRelations of
                         Inl e \<Rightarrow> Inl TransactionNotStartedError | Inr d \<Rightarrow> Inr d)))"
proof (cases "lockReservationForUser s (cp_reservationId dto) (cp_userId dto)")
  case None
  then show ?thesis by (intro missing) (simp_all add: confirmPayment_unfold)
next
  case (Some p)
  obtain r seat session where p: "p = (r, seat, session)" by (cases p) auto
  note l = Some[unfolded p]
  show ?thesis
  proof (cases "status r = CONFIRMED")
    case True
    with l show ?thesis by (intro replay[of r seat session]) (simp_all add: confirmPayment_unfold)
  next
    case nc: False
    show ?thesis
    proof (cases "status r \<noteq> PENDING \<or> expiresAt r < now")
      case True
      with l nc show ?thesis
        by (intro refused[of r seat session
              "if status r \<noteq> PENDING then ReservationNotPending (status r) else ReservationHasExpired"])
           (auto simp: confirmPayment_unfold)
    next
      case False
      obtain newSales w where c: "confirmAll paid dbNow
         (lockRelatedReservations s (userId r) (sessionId seat) (expiresAt r)) [] s = (newSales, w)"
        by (cases "confirmAll paid dbNow
         (lockRelatedReservations s (userId r) (sessionId seat) (expiresAt r)) [] s")
      with l nc False show ?thesis
        by (intro confirm[of r seat session newSales w]) (auto simp: confirmPayment_unfold)
    qed
  qed
qed

lemma storeInvariant_confirmPayment:
  assumes "storeInvariant s"
  shows "storeInvariant (fst (confirmPayment dto now paid dbNow s))"
proof (cases rule: confirmPayment_cases[of s dto now paid dbNow])
  case missing
  with assms show ?thesis by simp
next
  case (replay r seat session)
  with assms show ?thesis by (simp split: option.splits)
next
  case (refused r seat session e)
  with assms show ?thesis by simp
next
  case (confirm r seat session newSales w)
  from confirmAll_effect(1)[OF assms groupReady_related[OF assms] confirm(4)]
  have "storeInvariant w" .
  with confirm(5) show ?thesis by (simp split: option.splits)
qed

lemma storeInvariant_consistent:
  assumes "storeInvariant s"
  shows "consistent s"
  unfolding consistent_def
proof
  fix seat assume seat: "seat \<in> set (seats s)"
  with assms have st: "seatStrict s seat" and sm: "salesMatch s"
    by (simp_all add: storeInvariant_def)
  show "seatConsistent s seat"
  proof (cases "seat_status seat")
    case AVAILABLE
    with st show ?thesis by (simp add: seatConsistent_def seatStrict_def)
  next
    case RESERVED
    with st show ?thesis by (simp add: seatConsistent_def seatStrict_def)
  next
    case SOLD
    with st have "length (confirmedOn s (seat_id seat)) = 1" by (simp add: seatStrict_def)
    then obtain r where r: "confirmedOn s (seat_id seat) = [r]"
      by (auto simp: length_Suc_conv)
    then have "r \<in> set (confirmedOn s (seat_id seat))" by simp
    then have "r \<in> set (reservations s)" "status r = CONFIRMED"
      by (simp_all add: confirmedOn_def)
    with sm have "length (salesOf s (reservation_id r)) = 1" by (simp add: salesMatch_def)
    with SOLD r show ?thesis by (simp add: seatConsistent_def)
  qed
qed

lemma storeInvariant_provisioned:
  assumes "provisioned s"
  shows "storeInvariant s"
  using assms
  by (auto simp: provisioned_def storeInvariant_def pkUnique_def idsAllocated_def
      foreignKeys_def salesMatch_def seatStrict_def pendingOn_def confirmedOn_def)

text \<open>
  Claim C4, amended.  A provisioned store satisfies \<open>storeInvariant\<close>; \<open>createReservation\<close>,
  \<open>confirmPayment\<close> and \<open>expireReservation\<close> each take a store satisfying it to a committed
  store satisfying it again; and a store satisfying it satisfies the three seat clauses:
  an \<open>AVAILABLE\<close> seat has no pending reservation, a \<open>RESERVED\<close> seat exactly one, and a
  \<open>SOLD\<close> seat exactly one confirmed reservation with exactly one sale.
\<close>

theorem operations_preserve_storeInvariant:
  "(provisioned s \<longrightarrow> storeInvariant s)
   \<and> (storeInvariant s \<longrightarrow>
        consistent s
        \<and> storeInvariant (fst (createReservation ttl cdto now dbNow s))
        \<and> consistent (fst (createReservation ttl cdto now dbNow s))
        \<and> storeInvariant (fst (confirmPayment pdto now paid dbNow s))
        \<and> consistent (fst (confirmPayment pdto now paid dbNow s))
        \<and> storeInvariant (expireReservation rid now s)
        \<and> consistent (expireReservation rid now s))"
proof (intro conjI impI)
  assume "provisioned s"
  then show "storeInvariant s" by (rule storeInvariant_provisioned)
next
  assume inv: "storeInvariant s"
  then show "consistent s" by (rule storeInvariant_consistent)
  show "storeInvariant (fst (createReservation ttl cdto now dbNow s))"
    by (rule storeInvariant_createReservation[OF inv])
  then show "consistent (fst (createReservation ttl cdto now dbNow s))"
    by (rule storeInvariant_consistent)
  show "storeInvariant (fst (confirmPayment pdto now paid dbNow s))"
    by (rule storeInvariant_confirmPayment[OF inv])
  then show "consistent (fst (confirmPayment pdto now paid dbNow s))"
    by (rule storeInvariant_consistent)
  show "storeInvariant (expireReservation rid now s)"
    by (rule storeInvariant_expireReservation[OF inv])
  then show "consistent (expireReservation rid now s)"
    by (rule storeInvariant_consistent)
qed

lemma storeInvariant_heldStore: "storeInvariant heldStore"
  by code_simp

theorem operations_preserve_storeInvariant_witness:
  "provisioned store0 \<and> storeInvariant store0 \<and> storeInvariant heldStore
   \<and> consistent (fst (confirmPayment confirm100 2000 2001 2002 heldStore))
   \<and> consistent (expireReservation 100 31001 heldStore)
   \<and> consistent (fst (createReservation 30 holdA1 1000 1001 store0))"
proof -
  have p: "provisioned store0" by code_simp
  with operations_preserve_storeInvariant[of store0 30 holdA1 1000 1001 confirm100 0 100]
  have a: "storeInvariant store0"
    and b: "consistent (fst (createReservation 30 holdA1 1000 1001 store0))"
    by blast+
  from operations_preserve_storeInvariant[of heldStore 30 holdA1 2000 2002 confirm100 2001 100]
    storeInvariant_heldStore
  have c: "consistent (fst (confirmPayment confirm100 2000 2001 2002 heldStore))" by blast
  from operations_preserve_storeInvariant[of heldStore 30 holdA1 31001 0 confirm100 0 100]
    storeInvariant_heldStore
  have d: "consistent (expireReservation 100 31001 heldStore)" by blast
  from p a b c d storeInvariant_heldStore show ?thesis by simp
qed

theorem consistent_not_inductive_counterexample:
  "consistent tornStore \<and> \<not> consistent (expireReservation 201 101 tornStore)"
  by code_simp

section \<open>confirmPayment\<close>

lemma find_append_split:
  "find P (xs @ ys) = (case find P xs of None \<Rightarrow> find P ys | Some x \<Rightarrow> Some x)"
  by (induction xs) auto

lemma find_single:
  "filter P xs = [x] \<Longrightarrow> find P xs = Some x"
  by (induction xs) (auto split: if_splits simp: filter_empty_conv find_None_iff)

lemma newSalesFrom_bounds:
  "x \<in> set (newSalesFrom paid dbNow n ms) \<Longrightarrow> n \<le> sale_id x \<and> sale_id x < n + length ms"
  by (induction ms arbitrary: n) (fastforce simp: mkSale_def)+

lemma newSalesFrom_distinct:
  "distinct (map sale_id (newSalesFrom paid dbNow n ms))"
proof (induction ms arbitrary: n)
  case Nil
  then show ?case by simp
next
  case (Cons m ms)
  have "n \<notin> sale_id ` set (newSalesFrom paid dbNow (Suc n) ms)"
    using newSalesFrom_bounds[of _ paid dbNow "Suc n" ms] by fastforce
  with Cons show ?case by (simp add: mkSale_def)
qed

lemma newSalesFrom_of_member:
  assumes "distinct (map (\<lambda>m. reservation_id (fst m)) ms)" "m \<in> set ms"
  shows "\<exists>i. filter (\<lambda>x. reservationId x = reservation_id (fst m)) (newSalesFrom paid dbNow n ms)
              = [mkSale paid dbNow i m]
            \<and> mkSale paid dbNow i m \<in> set (newSalesFrom paid dbNow n ms)"
  using assms
proof (induction ms arbitrary: n)
  case Nil
  then show ?case by simp
next
  case (Cons a ms)
  show ?case
  proof (cases "m = a")
    case True
    with Cons.prems have "\<forall>m' \<in> set ms. reservation_id (fst m') \<noteq> reservation_id (fst m)"
      by (auto simp: image_iff)
    then have "filter (\<lambda>x. reservationId x = reservation_id (fst m)) (newSalesFrom paid dbNow k ms) = []" for k
      by (induction ms arbitrary: k) (auto simp: mkSale_def)
    with True show ?thesis by (auto simp: mkSale_def intro!: exI[of _ n])
  next
    case False
    with Cons.prems have "m \<in> set ms" "distinct (map (\<lambda>m. reservation_id (fst m)) ms)"
      "reservation_id (fst a) \<noteq> reservation_id (fst m)"
      by (auto simp: image_iff)
    with Cons.IH[of "Suc n"] show ?thesis by (auto simp: mkSale_def)
  qed
qed

lemma seatById_status_update_set:
  assumes "seats s' = map (\<lambda>x. if seat_id x \<in> S then x\<lparr>seat_status := sst\<rparr> else x) (seats s)"
  shows "seatById s' j =
           map_option (\<lambda>x. if seat_id x \<in> S then x\<lparr>seat_status := sst\<rparr> else x) (seatById s j)"
proof -
  have "find (\<lambda>x. seat_id (if seat_id x \<in> S then x\<lparr>seat_status := sst\<rparr> else x) = j) (seats s)
        = find (\<lambda>x. seat_id x = j) (seats s)"
    by (rule find_cong_set) auto
  then show ?thesis unfolding seatById_def assms find_map_upd by simp
qed

text \<open>The store after the confirmation loop has run over the booking group.\<close>

lemma confirmed_group_store:
  assumes inv: "storeInvariant s"
    and run: "confirmAll paid dbNow (lockRelatedReservations s user sess expires) [] s = (newSales, w)"
    and m: "(r, seat, session) \<in> set (lockRelatedReservations s user sess expires)"
  shows "find (\<lambda>x. reservation_id x = reservation_id r) (reservations w)
           = Some (r\<lparr>status := CONFIRMED\<rparr>)"
    and "seatById w (seatId r) = Some (seat\<lparr>seat_status := SOLD\<rparr>)"
    and "findSession w = findSession s"
    and "\<exists>i. salesOf w (reservation_id r) = [mkSale paid dbNow i (r, seat, session)]
           \<and> find (\<lambda>x. reservationId x = reservation_id r) newSales
               = Some (mkSale paid dbNow i (r, seat, session))
           \<and> find (\<lambda>x. reservationId x = reservation_id r) (sales w)
               = Some (mkSale paid dbNow i (r, seat, session))
           \<and> find (\<lambda>x. sale_id x = i) (sales w) = Some (mkSale paid dbNow i (r, seat, session))"
proof -
  let ?ms = "lockRelatedReservations s user sess expires"
  note g = groupReady_related[OF inv, of user sess expires]
  note e = confirmAll_effect[OF inv g run]
  from m have rin: "r \<in> set (reservations s)" and sb: "seatById s (seatId r) = Some seat"
    and p: "status r = PENDING"
    by (auto simp: lockRelatedReservations_mem)
  from seatById_Some[OF sb] have sid: "seat_id seat = seatId r" by simp
  from inv have dr: "distinct (map reservation_id (reservations s))"
    and ia: "idsAllocated s"
    by (auto simp: storeInvariant_def pkUnique_def)
  let ?f = "\<lambda>x. if reservation_id x \<in> (\<lambda>m. reservation_id (fst m)) ` set ?ms
                    then x\<lparr>status := CONFIRMED\<rparr> else x"
  have "find (\<lambda>x. reservation_id (?f x) = reservation_id r) (reservations s)
        = find (\<lambda>x. reservation_id x = reservation_id r) (reservations s)"
    by (rule find_cong_set) auto
  moreover have "reservation_id r \<in> (\<lambda>m. reservation_id (fst m)) ` set ?ms"
    using m by (auto simp: image_iff intro!: bexI[of _ "(r, seat, session)"])
  ultimately show "find (\<lambda>x. reservation_id x = reservation_id r) (reservations w)
           = Some (r\<lparr>status := CONFIRMED\<rparr>)"
    unfolding e(2) find_map_upd using find_distinct_key[OF dr rin] by simp
  have "seat_id seat \<in> (\<lambda>m. seat_id (fst (snd m))) ` set ?ms"
    using m by (auto simp: image_iff intro!: bexI[of _ "(r, seat, session)"])
  then show "seatById w (seatId r) = Some (seat\<lparr>seat_status := SOLD\<rparr>)"
    using sb sid by (simp add: seatById_status_update_set[OF e(3)])
  show "findSession w = findSession s" by (simp add: findSession_def fun_eq_iff e(6))
  from g have dm: "distinct (map (\<lambda>m. reservation_id (fst m)) ?ms)" by (simp add: groupReady_def)
  from newSalesFrom_of_member[OF dm m, of paid dbNow "nextId s"]
  obtain i where i: "filter (\<lambda>x. reservationId x = reservation_id r)
        (newSalesFrom paid dbNow (nextId s) ?ms) = [mkSale paid dbNow i (r, seat, session)]"
    and mem: "mkSale paid dbNow i (r, seat, session) \<in> set (newSalesFrom paid dbNow (nextId s) ?ms)"
    by auto
  from storeInvariant_no_sale_of_pending[OF inv rin] p
  have none: "filter (\<lambda>x. reservationId x = reservation_id r) (sales s) = []"
    by (simp add: salesOf_def)
  have a: "salesOf w (reservation_id r) = [mkSale paid dbNow i (r, seat, session)]"
    by (simp add: salesOf_def e(4) none i)
  have b: "find (\<lambda>x. reservationId x = reservation_id r) newSales
               = Some (mkSale paid dbNow i (r, seat, session))"
    using find_single[OF i] by (simp add: e(5))
  have c: "find (\<lambda>x. reservationId x = reservation_id r) (sales w)
               = Some (mkSale paid dbNow i (r, seat, session))"
    using find_single[OF a[unfolded salesOf_def]] .
  have ds: "distinct (map sale_id (newSalesFrom paid dbNow (nextId s) ?ms))"
    by (rule newSalesFrom_distinct)
  from newSalesFrom_bounds[OF mem] have ge: "nextId s \<le> i" by (simp add: mkSale_def)
  with ia have old: "find (\<lambda>x. sale_id x = i) (sales s) = None"
    by (auto simp: find_None_iff idsAllocated_def)
  from find_distinct_key[OF ds mem]
  have "find (\<lambda>x. sale_id x = i) (newSalesFrom paid dbNow (nextId s) ?ms)
        = Some (mkSale paid dbNow i (r, seat, session))"
    by (simp add: mkSale_def)
  with old have d: "find (\<lambda>x. sale_id x = i) (sales w) = Some (mkSale paid dbNow i (r, seat, session))"
    by (simp add: e(4) find_append_split)
  from a b c d show "\<exists>i. salesOf w (reservation_id r) = [mkSale paid dbNow i (r, seat, session)]
           \<and> find (\<lambda>x. reservationId x = reservation_id r) newSales
               = Some (mkSale paid dbNow i (r, seat, session))
           \<and> find (\<lambda>x. reservationId x = reservation_id r) (sales w)
               = Some (mkSale paid dbNow i (r, seat, session))
           \<and> find (\<lambda>x. sale_id x = i) (sales w) = Some (mkSale paid dbNow i (r, seat, session))"
    by blast
qed

lemma confirmPayment_replay:
  assumes "lockReservationForUser s (cp_reservationId dto) (cp_userId dto) = Some (r, seat, session)"
    and "status r = CONFIRMED"
  shows "confirmPayment dto now paid dbNow s =
         (case find (\<lambda>x. reservationId x = reservation_id r) (sales s) of
            None \<Rightarrow> (s, Inl TransactionNotStartedError)
          | Some existingSale \<Rightarrow>
              (s, case saleResponse s existingSale of
                    Inl e \<Rightarrow> Inl TransactionNotStartedError | Inr d \<Rightarrow> Inr d))"
  using assms by (simp add: confirmPayment_unfold)

lemma confirmPayment_confirm:
  assumes inv: "storeInvariant s"
    and l: "lockReservationForUser s (cp_reservationId dto) (cp_userId dto) = Some (target, tseat, tsession)"
    and p: "status target = PENDING" and t: "now \<le> expiresAt target"
  obtains newSales w i where
    "confirmAll paid dbNow
       (lockRelatedReservations s (userId target) (sessionId tseat) (expiresAt target)) [] s
       = (newSales, w)"
    "confirmPayment dto now paid dbNow s =
       (w, Inr (saleDto (mkSale paid dbNow i (target, tseat, tsession))
                  (tseat\<lparr>seat_status := SOLD\<rparr>) tsession))"
    "find (\<lambda>x. reservationId x = reservation_id target) (sales w)
       = Some (mkSale paid dbNow i (target, tseat, tsession))"
    "saleResponse w (mkSale paid dbNow i (target, tseat, tsession)) =
       Inr (saleDto (mkSale paid dbNow i (target, tseat, tsession))
                  (tseat\<lparr>seat_status := SOLD\<rparr>) tsession)"
proof -
  let ?ms = "lockRelatedReservations s (userId target) (sessionId tseat) (expiresAt target)"
  obtain newSales w where run: "confirmAll paid dbNow ?ms [] s = (newSales, w)"
    by (cases "confirmAll paid dbNow ?ms [] s")
  note m = target_in_group[OF l p]
  note c = confirmed_group_store[OF inv run m]
  from c(4) obtain i where
    i: "find (\<lambda>x. reservationId x = reservation_id target) newSales
               = Some (mkSale paid dbNow i (target, tseat, tsession))"
      "find (\<lambda>x. reservationId x = reservation_id target) (sales w)
               = Some (mkSale paid dbNow i (target, tseat, tsession))"
      "find (\<lambda>x. sale_id x = i) (sales w) = Some (mkSale paid dbNow i (target, tseat, tsession))"
    by blast
  let ?sale = "mkSale paid dbNow i (target, tseat, tsession)"
  from lockReservationForUser_Some[OF l]
  have sb: "seatById s (seatId target) = Some tseat"
    and fs: "findSession s (sessionId tseat) = Some tsession" by auto
  from seatById_Some[OF sb] have sid: "seat_id tseat = seatId target" by simp
  have resp: "saleResponse w ?sale = Inr (saleDto ?sale (tseat\<lparr>seat_status := SOLD\<rparr>) tsession)"
    using c(2) fs by (simp add: saleResponse_def saleRelations_def c(3) mkSale_def sid)
  have "sale_id ?sale = i" by (simp add: mkSale_def)
  with l p t run i resp
  have cp: "confirmPayment dto now paid dbNow s =
       (w, Inr (saleDto ?sale (tseat\<lparr>seat_status := SOLD\<rparr>) tsession))"
    by (simp add: confirmPayment_unfold)
  from run cp i(2) resp show ?thesis by (rule that)
qed

lemma lockReservationForUser_found:
  assumes "pkUnique s" "foreignKeys s" "r \<in> set (reservations s)"
  shows "\<exists>seat session. lockReservationForUser s (reservation_id r) (userId r) = Some (r, seat, session)"
proof -
  from assms(2,3) obtain seat where sb: "seatById s (seatId r) = Some seat"
    by (auto simp: foreignKeys_def)
  from seatById_Some[OF sb] have "seat \<in> set (seats s)" by simp
  with assms(2) obtain session where
    fs: "findSession s (sessionId seat) = Some session"
    by (auto simp: foreignKeys_def)
  from sb fs have j: "joinSeatSession s r = Some (r, seat, session)"
    by (simp add: joinSeatSession_Some)
  from assms(1) have d: "distinct (map reservation_id (reservations s))"
    by (simp add: pkUnique_def)
  have "find (\<lambda>x. reservation_id x = reservation_id r \<and> userId x = userId r
                          \<and> joinSeatSession s x \<noteq> None) (reservations s) = Some r"
  proof (rule find_unique_key[OF d assms(3)])
    show "reservation_id r = reservation_id r \<and> userId r = userId r \<and> joinSeatSession s r \<noteq> None"
      using j by simp
  next
    show "\<forall>y. reservation_id y = reservation_id r \<and> userId y = userId r
        \<and> joinSeatSession s y \<noteq> None \<longrightarrow> reservation_id y = reservation_id r"
      by blast
  qed
  with j show ?thesis by (simp add: lockReservationForUser_find)
qed

lemma lock_after_confirm:
  assumes inv: "storeInvariant s"
    and l: "lockReservationForUser s rid user = Some (target, tseat, tsession)"
    and p: "status target = PENDING"
    and run: "confirmAll paid dbNow
       (lockRelatedReservations s (userId target) (sessionId tseat) (expiresAt target)) [] s
       = (newSales, w)"
  shows "lockReservationForUser w rid user =
           Some (target\<lparr>status := CONFIRMED\<rparr>, tseat\<lparr>seat_status := SOLD\<rparr>, tsession)"
proof -
  let ?ms = "lockRelatedReservations s (userId target) (sessionId tseat) (expiresAt target)"
  note g = groupReady_related[OF inv, of "userId target" "sessionId tseat" "expiresAt target"]
  note e = confirmAll_effect[OF inv g run]
  note m = target_in_group[OF l p]
  note c = confirmed_group_store[OF inv run m]
  note ls = lockReservationForUser_Some[OF l]
  let ?f = "\<lambda>x. if reservation_id x \<in> (\<lambda>m. reservation_id (fst m)) ` set ?ms
                    then x\<lparr>status := CONFIRMED\<rparr> else x"
  let ?g = "\<lambda>x. if seat_id x \<in> (\<lambda>m. seat_id (fst (snd m))) ` set ?ms
                    then x\<lparr>seat_status := SOLD\<rparr> else x"
  have join: "joinSeatSession w (?f x) \<noteq> None \<longleftrightarrow> joinSeatSession s x \<noteq> None" for x
  proof -
    have "seatId (?f x) = seatId x" by simp
    then show ?thesis
      unfolding joinSeatSession_def seatById_status_update_set[OF e(3)] c(3)
      by (cases "seatById s (seatId x)") auto
  qed
  have "find (\<lambda>x. reservation_id (?f x) = rid \<and> userId (?f x) = user
                \<and> joinSeatSession w (?f x) \<noteq> None) (reservations s)
        = find (\<lambda>x. reservation_id x = rid \<and> userId x = user
                \<and> joinSeatSession s x \<noteq> None) (reservations s)"
    by (rule find_cong_set) (auto simp: join simp del: not_None_eq)
  also from l have "\<dots> = Some target"
    by (auto simp: lockReservationForUser_find Option.bind_eq_Some_conv joinSeatSession_Some)
  finally have "find (\<lambda>r. reservation_id r = rid \<and> userId r = user
                          \<and> joinSeatSession w r \<noteq> None) (reservations w) = Some (?f target)"
    unfolding e(2) find_map_upd by simp
  moreover have "?f target = target\<lparr>status := CONFIRMED\<rparr>"
    using m by (auto simp: image_iff intro!: bexI[of _ "(target, tseat, tsession)"])
  moreover have "joinSeatSession w (target\<lparr>status := CONFIRMED\<rparr>)
      = Some (target\<lparr>status := CONFIRMED\<rparr>, tseat\<lparr>seat_status := SOLD\<rparr>, tsession)"
    using c(2) ls(5) by (simp add: joinSeatSession_Some c(3))
  ultimately show ?thesis by (simp add: lockReservationForUser_find)
qed

text \<open>
  Claim C1 as stated fails for a call that succeeds on a target already \<open>CONFIRMED\<close>:
  user u1 holds A1, pays, and holds A2 within the same millisecond as the first hold.
  The repeated payment call for the first reservation returns its sale, and the pending
  reservation 102, which has the target's user, session and \<open>expiresAt\<close>, stays
  \<open>PENDING\<close> with its seat \<open>RESERVED\<close>.
\<close>

theorem confirmPayment_replay_counterexample:
  "fst (createReservation 30 holdA1 1000 1001 store0) = firstHoldStore
   \<and> confirmPayment confirm100 1000 1000 1001 firstHoldStore = (soldA1Store, Inr saleA1)
   \<and> fst (createReservation 30 holdA2 1000 1001 soldA1Store) = replayStore
   \<and> storeInvariant replayStore
   \<and> confirmPayment confirm100 1000 1000 1001 replayStore = (replayStore, Inr saleA1)
   \<and> lockReservationForUser replayStore 100 ''u1''
       = Some (res100\<lparr>status := CONFIRMED\<rparr>, (mkSeat 10 ''A1'')\<lparr>seat_status := SOLD\<rparr>, session1)
   \<and> reservations replayStore ! 1 = res101\<lparr>reservation_id := 102\<rparr>
   \<and> status (res101\<lparr>reservation_id := 102\<rparr>) = PENDING
   \<and> userId (res101\<lparr>reservation_id := 102\<rparr>) = userId res100
   \<and> expiresAt (res101\<lparr>reservation_id := 102\<rparr>) = expiresAt res100
   \<and> seatById replayStore 11 = Some ((mkSeat 11 ''A2'')\<lparr>seat_status := RESERVED\<rparr>)"
  by code_simp

text \<open>
  Claim C1, amended.  On a store satisfying the store invariant, a \<open>confirmPayment\<close> call
  whose target is not \<open>PENDING\<close> leaves the store as it was (so a repeated call on a
  \<open>CONFIRMED\<close> target confirms nothing).  A call whose target is \<open>PENDING\<close> either throws
  and leaves the store as it was, or returns the target's sale and leaves every pending
  reservation with the target's user, session and \<open>expiresAt\<close> (the target among them)
  \<open>CONFIRMED\<close>, its seat \<open>SOLD\<close>, and with exactly one sale, whose amount is the
  session's ticket price and whose \<open>paidAt\<close> is the one \<open>paidAt\<close> of the call.  It returns
  whenever \<open>now\<close> is not after \<open>expiresAt\<close>.
\<close>

theorem confirmPayment_group:
  assumes inv: "storeInvariant s"
    and l: "lockReservationForUser s (cp_reservationId dto) (cp_userId dto) = Some (target, tseat, tsession)"
    and run: "confirmPayment dto now paid dbNow s = (s', result)"
  shows "(status target \<noteq> PENDING \<longrightarrow> s' = s)
    \<and> (status target = PENDING \<longrightarrow>
         (\<forall>e. result = Inl e \<longrightarrow> s' = s \<and> expiresAt target < now)
         \<and> (now \<le> expiresAt target \<longrightarrow>
              (\<exists>d. result = Inr d \<and> sr_reservationId d = reservation_id target
                   \<and> sr_amount d = ticketPrice tsession \<and> sr_paidAt d = paid))
         \<and> (\<forall>d. result = Inr d \<longrightarrow>
              (\<forall>r \<in> set (reservations s). \<forall>seat.
                  status r = PENDING \<and> userId r = userId target \<and> expiresAt r = expiresAt target
                  \<and> seatById s (seatId r) = Some seat \<and> sessionId seat = sessionId tseat \<longrightarrow>
                  find (\<lambda>x. reservation_id x = reservation_id r) (reservations s')
                    = Some (r\<lparr>status := CONFIRMED\<rparr>)
                  \<and> seatById s' (seatId r) = Some (seat\<lparr>seat_status := SOLD\<rparr>)
                  \<and> (\<exists>sale. salesOf s' (reservation_id r) = [sale]
                        \<and> amount sale = ticketPrice tsession \<and> paidAt sale = paid
                        \<and> sale_seatId sale = seatId r \<and> sale_userId sale = userId r))))"
proof (cases "status target = PENDING")
  case False
  with l run have "s' = s"
    by (auto simp: confirmPayment_unfold split: option.splits sum.splits if_splits)
  with False show ?thesis by simp
next
  case p: True
  show ?thesis
  proof (cases "now \<le> expiresAt target")
    case False
    with l p run have "s' = s" "result = Inl ReservationHasExpired"
      by (simp_all add: confirmPayment_unfold)
    with False p show ?thesis by simp
  next
    case True
    from inv l p True obtain newSales w i where
      c: "confirmAll paid dbNow
         (lockRelatedReservations s (userId target) (sessionId tseat) (expiresAt target)) [] s
         = (newSales, w)"
      and res: "confirmPayment dto now paid dbNow s =
         (w, Inr (saleDto (mkSale paid dbNow i (target, tseat, tsession))
                    (tseat\<lparr>seat_status := SOLD\<rparr>) tsession))"
      by (rule confirmPayment_confirm)
    from res run have s': "s' = w"
      and result: "result = Inr (saleDto (mkSale paid dbNow i (target, tseat, tsession))
                    (tseat\<lparr>seat_status := SOLD\<rparr>) tsession)"
      by simp_all
    from lockReservationForUser_Some[OF l]
    have fs: "findSession s (sessionId tseat) = Some tsession" by simp
    have group: "find (\<lambda>x. reservation_id x = reservation_id r) (reservations s')
                 = Some (r\<lparr>status := CONFIRMED\<rparr>)
               \<and> seatById s' (seatId r) = Some (seat\<lparr>seat_status := SOLD\<rparr>)
               \<and> (\<exists>sale. salesOf s' (reservation_id r) = [sale]
                     \<and> amount sale = ticketPrice tsession \<and> paidAt sale = paid
                     \<and> sale_seatId sale = seatId r \<and> sale_userId sale = userId r)"
      if r: "r \<in> set (reservations s)" and c1: "status r = PENDING" "userId r = userId target"
        "expiresAt r = expiresAt target" "seatById s (seatId r) = Some seat"
        "sessionId seat = sessionId tseat" for r seat
    proof -
      have m: "(r, seat, tsession) \<in> set (lockRelatedReservations s (userId target)
          (sessionId tseat) (expiresAt target))"
        using r c1 fs by (simp add: lockRelatedReservations_mem)
      note g = confirmed_group_store[OF inv c m]
      from g(4) obtain j where "salesOf w (reservation_id r) = [mkSale paid dbNow j (r, seat, tsession)]"
        by blast
      moreover from seatById_Some[OF c1(4)] have "seat_id seat = seatId r" by simp
      ultimately have "\<exists>sale. salesOf w (reservation_id r) = [sale]
                     \<and> amount sale = ticketPrice tsession \<and> paidAt sale = paid
                     \<and> sale_seatId sale = seatId r \<and> sale_userId sale = userId r"
        by (simp add: mkSale_def)
      with g(1,2) show ?thesis by (simp add: s')
    qed
    have "\<exists>d. result = Inr d \<and> sr_reservationId d = reservation_id target
                \<and> sr_amount d = ticketPrice tsession \<and> sr_paidAt d = paid"
      by (simp add: result saleDto_def mkSale_def)
    with result group p show ?thesis by auto
  qed
qed

lemma heldStore_confirm:
  "confirmPayment confirm100 2000 2001 2002 heldStore = (confirmedStore, Inr sale100)"
  by code_simp

lemma heldStore_lock_user:
  "lockReservationForUser heldStore (cp_reservationId confirm100) (cp_userId confirm100)
     = Some (res100, (mkSeat 10 ''A1'')\<lparr>seat_status := RESERVED\<rparr>, session1)"
  by code_simp

lemma confirmedStore_lock_user:
  "lockReservationForUser confirmedStore (cp_reservationId confirm100) (cp_userId confirm100)
     = Some (res100\<lparr>status := CONFIRMED\<rparr>, (mkSeat 10 ''A1'')\<lparr>seat_status := SOLD\<rparr>, session1)"
  by code_simp

lemma storeInvariant_confirmedStore: "storeInvariant confirmedStore"
  by code_simp

theorem confirmPayment_group_witness:
  "storeInvariant heldStore
   \<and> lockReservationForUser heldStore (cp_reservationId confirm100) (cp_userId confirm100)
       = Some (res100, (mkSeat 10 ''A1'')\<lparr>seat_status := RESERVED\<rparr>, session1)
   \<and> status res100 = PENDING
   \<and> confirmPayment confirm100 2000 2001 2002 heldStore = (confirmedStore, Inr sale100)
   \<and> res101 \<in> set (reservations heldStore)
   \<and> find (\<lambda>x. reservation_id x = reservation_id res101) (reservations confirmedStore)
       = Some (res101\<lparr>status := CONFIRMED\<rparr>)
   \<and> seatById confirmedStore (seatId res101) = Some ((mkSeat 11 ''A2'')\<lparr>seat_status := SOLD\<rparr>)
   \<and> length (salesOf confirmedStore (reservation_id res101)) = 1
   \<and> confirmPayment confirm100 31001 31002 31003 heldStore = (heldStore, Inl ReservationHasExpired)
   \<and> storeInvariant confirmedStore
   \<and> status (res100\<lparr>status := CONFIRMED\<rparr>) \<noteq> PENDING
   \<and> fst (confirmPayment confirm100 9000 9001 9002 confirmedStore) = confirmedStore"
proof -
  have p: "status res100 = PENDING" by (simp add: res100_def)
  have late: "snd (confirmPayment confirm100 31001 31002 31003 heldStore) = Inl ReservationHasExpired"
    by code_simp
  then have "confirmPayment confirm100 31001 31002 31003 heldStore
      = (fst (confirmPayment confirm100 31001 31002 31003 heldStore), Inl ReservationHasExpired)"
    by (metis prod.collapse)
  from confirmPayment_group[OF storeInvariant_heldStore heldStore_lock_user this] p
  have "fst (confirmPayment confirm100 31001 31002 31003 heldStore) = heldStore"
    by simp
  with late have f: "confirmPayment confirm100 31001 31002 31003 heldStore
      = (heldStore, Inl ReservationHasExpired)"
    by (metis prod.collapse)
  have m: "res101 \<in> set (reservations heldStore)" by (simp add: res101_def heldStore_def)
  have c: "status res101 = PENDING \<and> userId res101 = userId res100
      \<and> expiresAt res101 = expiresAt res100
      \<and> seatById heldStore (seatId res101) = Some ((mkSeat 11 ''A2'')\<lparr>seat_status := RESERVED\<rparr>)
      \<and> sessionId ((mkSeat 11 ''A2'')\<lparr>seat_status := RESERVED\<rparr>)
          = sessionId ((mkSeat 10 ''A1'')\<lparr>seat_status := RESERVED\<rparr>)"
    by (simp add: res100_def res101_def heldStore_def seatById_def mkSeat_def)
  from confirmPayment_group[OF storeInvariant_heldStore heldStore_lock_user heldStore_confirm] p
  have "\<forall>r \<in> set (reservations heldStore). \<forall>seat.
             status r = PENDING \<and> userId r = userId res100 \<and> expiresAt r = expiresAt res100
             \<and> seatById heldStore (seatId r) = Some seat
             \<and> sessionId seat = sessionId ((mkSeat 10 ''A1'')\<lparr>seat_status := RESERVED\<rparr>) \<longrightarrow>
             find (\<lambda>x. reservation_id x = reservation_id r) (reservations confirmedStore)
               = Some (r\<lparr>status := CONFIRMED\<rparr>)
             \<and> seatById confirmedStore (seatId r) = Some (seat\<lparr>seat_status := SOLD\<rparr>)
             \<and> (\<exists>sale. salesOf confirmedStore (reservation_id r) = [sale]
                   \<and> amount sale = ticketPrice session1 \<and> paidAt sale = 2001
                   \<and> sale_seatId sale = seatId r \<and> sale_userId sale = userId r)"
    by blast
  from this[rule_format, OF m c]
  have g: "find (\<lambda>x. reservation_id x = reservation_id res101) (reservations confirmedStore)
       = Some (res101\<lparr>status := CONFIRMED\<rparr>)
   \<and> seatById confirmedStore (seatId res101) = Some ((mkSeat 11 ''A2'')\<lparr>seat_status := SOLD\<rparr>)
   \<and> length (salesOf confirmedStore (reservation_id res101)) = 1"
    by auto
  have np: "status (res100\<lparr>status := CONFIRMED\<rparr>) \<noteq> PENDING" by simp
  have "confirmPayment confirm100 9000 9001 9002 confirmedStore
      = (fst (confirmPayment confirm100 9000 9001 9002 confirmedStore),
         snd (confirmPayment confirm100 9000 9001 9002 confirmedStore))"
    by simp
  from confirmPayment_group[OF storeInvariant_confirmedStore confirmedStore_lock_user this] np
  have r: "fst (confirmPayment confirm100 9000 9001 9002 confirmedStore) = confirmedStore"
    by blast
  from storeInvariant_heldStore heldStore_lock_user p heldStore_confirm m g f
    storeInvariant_confirmedStore np r
  show ?thesis by simp
qed

text \<open>
  The idempotent path: a call repeated after a successful one returns the same sale record
  and leaves the store unchanged, and for a \<open>CONFIRMED\<close> reservation the call returns the
  stored sale that references it, with the seat number and session data of the sale's
  seat, without writing.
\<close>

lemma confirmPayment_repeat:
  assumes inv: "storeInvariant s" and run: "confirmPayment dto now paid dbNow s = (s', Inr d)"
  shows "confirmPayment dto now2 paid2 dbNow2 s' = (s', Inr d)"
proof (cases rule: confirmPayment_cases[of s dto now paid dbNow])
  case missing
  with run show ?thesis by simp
next
  case (refused r seat session e)
  with run show ?thesis by simp
next
  case (replay r seat session)
  from replay(3) run have "s' = s" by (auto split: option.splits)
  with replay run confirmPayment_replay[OF replay(1,2), of now2 paid2 dbNow2]
  show ?thesis by simp
next
  case (confirm target tseat tsession newSales w)
  from inv confirm(1,2,3) obtain newSales' w' i where
    c: "confirmAll paid dbNow
       (lockRelatedReservations s (userId target) (sessionId tseat) (expiresAt target)) [] s
       = (newSales', w')"
    "confirmPayment dto now paid dbNow s =
       (w', Inr (saleDto (mkSale paid dbNow i (target, tseat, tsession))
                (tseat\<lparr>seat_status := SOLD\<rparr>) tsession))"
    "find (\<lambda>x. reservationId x = reservation_id target) (sales w')
       = Some (mkSale paid dbNow i (target, tseat, tsession))"
    "saleResponse w' (mkSale paid dbNow i (target, tseat, tsession)) =
       Inr (saleDto (mkSale paid dbNow i (target, tseat, tsession))
                (tseat\<lparr>seat_status := SOLD\<rparr>) tsession)"
    by (rule confirmPayment_confirm)
  from c(2) run have s': "s' = w'"
    and d: "d = saleDto (mkSale paid dbNow i (target, tseat, tsession))
                (tseat\<lparr>seat_status := SOLD\<rparr>) tsession" by simp_all
  from lock_after_confirm[OF inv confirm(1,2) c(1)]
  have l': "lockReservationForUser w' (cp_reservationId dto) (cp_userId dto) =
         Some (target\<lparr>status := CONFIRMED\<rparr>, tseat\<lparr>seat_status := SOLD\<rparr>, tsession)" .
  from confirmPayment_replay[OF l', of now2 paid2 dbNow2] c(3,4)
  show ?thesis by (simp add: s' d)
qed

lemma confirmPayment_confirmed_sale:
  assumes "pkUnique s" "foreignKeys s" "r \<in> set (reservations s)" "status r = CONFIRMED"
    and f: "find (\<lambda>x. reservationId x = reservation_id r) (sales s) = Some sale"
  shows "\<exists>seat session. seatById s (sale_seatId sale) = Some seat
      \<and> findSession s (sessionId seat) = Some session
      \<and> confirmPayment \<lparr>cp_reservationId = reservation_id r, cp_userId = userId r\<rparr> now paid
            dbNow s =
          (s, Inr \<lparr>sr_id = sale_id sale, sr_seatId = sale_seatId sale,
                   sr_seatNumber = seatNumber seat, sr_userId = sale_userId sale,
                   sr_reservationId = reservationId sale, sr_amount = amount sale,
                   sr_movieName = movieName session, sr_sessionStartTime = startTime session,
                   sr_roomNumber = roomNumber session, sr_paidAt = paidAt sale,
                   sr_createdAt = sale_createdAt sale\<rparr>)"
proof -
  let ?dto = "\<lparr>cp_reservationId = reservation_id r, cp_userId = userId r\<rparr>"
  from assms(1-3) lockReservationForUser_found[of s r] obtain rseat rsession where
    l: "lockReservationForUser s (cp_reservationId ?dto) (cp_userId ?dto) = Some (r, rseat, rsession)"
    by auto
  from f have "sale \<in> set (sales s)" by (auto simp: find_Some_iff in_set_conv_nth)
  with assms(2) obtain seat where sb: "seatById s (sale_seatId sale) = Some seat"
    by (auto simp: foreignKeys_def)
  with assms(2) seatById_Some[OF sb] obtain session where
    fs: "findSession s (sessionId seat) = Some session"
    by (auto simp: foreignKeys_def)
  from sb fs have "saleResponse s sale = Inr (saleDto sale seat session)"
    by (simp add: saleResponse_def saleRelations_def)
  with confirmPayment_replay[OF l assms(4), of now paid dbNow] f
  have "confirmPayment ?dto now paid dbNow s = (s, Inr (saleDto sale seat session))"
    by simp
  with sb fs show ?thesis unfolding saleDto_def by blast
qed

text \<open>
  A \<open>CONFIRMED\<close> reservation that no sale references: the \<open>try\<close> block commits and then
  throws \<open>BadRequestException\<close>, the \<open>catch\<close> block calls \<open>rollbackTransaction\<close> on the
  committed runner, and the caller gets \<open>TransactionNotStartedError\<close>.
\<close>

lemma confirmPayment_confirmed_without_sale:
  assumes "pkUnique s" "foreignKeys s" "r \<in> set (reservations s)" "status r = CONFIRMED"
    and f: "find (\<lambda>x. reservationId x = reservation_id r) (sales s) = None"
  shows "confirmPayment_try \<lparr>cp_reservationId = reservation_id r, cp_userId = userId r\<rparr> now paid
            dbNow s = ((s, False), Inl ConfirmedSaleMissing)"
    and "confirmPayment \<lparr>cp_reservationId = reservation_id r, cp_userId = userId r\<rparr> now paid
            dbNow s = (s, Inl TransactionNotStartedError)"
proof -
  let ?dto = "\<lparr>cp_reservationId = reservation_id r, cp_userId = userId r\<rparr>"
  from assms(1-3) lockReservationForUser_found[of s r] obtain rseat rsession where
    l: "lockReservationForUser s (cp_reservationId ?dto) (cp_userId ?dto) = Some (r, rseat, rsession)"
    by auto
  from l assms(4) f show "confirmPayment_try ?dto now paid dbNow s = ((s, False), Inl ConfirmedSaleMissing)"
    by (simp add: confirmPayment_try_def)
  from confirmPayment_replay[OF l assms(4), of now paid dbNow] f
  show "confirmPayment ?dto now paid dbNow s = (s, Inl TransactionNotStartedError)"
    by simp
qed

text \<open>
  Claim C2 at the store \<open>orphanStore\<close>, where reservation 100 is \<open>CONFIRMED\<close> and no sale
  references it: the \<open>try\<close> block throws the \<open>BadRequestException\<close>
  \<open>'Reservation is confirmed but sale record not found'\<close> after the commit, and what the
  call throws is the \<open>TransactionNotStartedError\<close> of the rollback that follows.  The store
  is unchanged and no sale is created.
\<close>

theorem confirmPayment_missing_sale_failing_input:
  "status (res100\<lparr>status := CONFIRMED\<rparr>) = CONFIRMED
   \<and> res100\<lparr>status := CONFIRMED\<rparr> \<in> set (reservations orphanStore)
   \<and> salesOf orphanStore 100 = []
   \<and> confirmPayment_try confirm100 9000 9001 9002 orphanStore
       = ((orphanStore, False), Inl ConfirmedSaleMissing)
   \<and> class_of ConfirmedSaleMissing = BadRequestException
   \<and> confirmPayment confirm100 9000 9001 9002 orphanStore
       = (orphanStore, Inl TransactionNotStartedError)
   \<and> class_of TransactionNotStartedError = TypeORMError"
  by code_simp

section \<open>Rejected store operations\<close>

lemma liftError_simps [simp]:
  "liftError (Inl e) = Inl (ServiceError e)" "liftError (Inr v) = Inr v"
  by (simp_all add: liftError_def)

lemma fails_upto:
  "(\<forall>j<Suc k. \<not> fails j) \<longleftrightarrow> (\<forall>j<k. \<not> fails j) \<and> \<not> fails k"
  by (auto simp: less_Suc_eq)

lemma reserveSeatOn_run:
  assumes run: "reserveSeatOn fails k sid user expires dbNow label s = ((w, out), n)"
    and nf: "\<forall>j<k. \<not> fails j"
  shows "k < n
    \<and> ((\<exists>j<n. fails j) \<longrightarrow>
          out = Inl QueryFailedError \<and> fails (n - 1) \<and> (\<forall>j<n - 1. \<not> fails j))
    \<and> (\<not> (\<exists>j<n. fails j) \<longrightarrow>
          w = fst (reserveSeat sid user expires dbNow label s)
          \<and> out = liftError (snd (reserveSeat sid user expires dbNow label s)))"
proof (cases "fails k")
  case True
  with run have "out = Inl QueryFailedError" "n = Suc k" by (simp_all add: reserveSeatOn_def)
  with True nf show ?thesis by auto
next
  case f0: False
  with nf have nf1: "\<forall>j<Suc k. \<not> fails j" by (simp add: fails_upto)
  show ?thesis
  proof (cases "available s sid label")
    case False
    with run f0 have "n = Suc k" "w = fst (reserveSeat sid user expires dbNow label s)"
      "out = liftError (snd (reserveSeat sid user expires dbNow label s))"
      by (auto simp: reserveSeatOn_def reserveSeat_def available_def liftError_def split: option.splits)
    with nf1 show ?thesis by auto
  next
    case True
    then obtain seat where l: "lockSeat s sid label = Some seat" and a: "seat_status seat = AVAILABLE"
      by (auto simp: available_def split: option.splits)
    show ?thesis
    proof (cases "fails (Suc k)")
      case True
      with run f0 l a have "out = Inl QueryFailedError" "n = Suc (Suc k)"
        by (simp_all add: reserveSeatOn_def)
      with True nf1 show ?thesis by auto
    next
      case f1: False
      with nf1 have nf2: "\<forall>j<Suc (Suc k). \<not> fails j" by (simp add: fails_upto)
      show ?thesis
      proof (cases "fails (Suc (Suc k))")
        case True
        with run f0 f1 l a have "out = Inl QueryFailedError" "n = Suc (Suc (Suc k))"
          by (simp_all add: reserveSeatOn_def numeral_2_eq_2 numeral_3_eq_3)
        with True nf2 show ?thesis by auto
      next
        case f2: False
        with nf2 have nf3: "\<forall>j<Suc (Suc (Suc k)). \<not> fails j" by (simp add: fails_upto)
        from run f0 f1 f2 l a have "n = Suc (Suc (Suc k))"
          "w = fst (reserveSeat sid user expires dbNow label s)"
          "out = liftError (snd (reserveSeat sid user expires dbNow label s))"
          by (auto simp: reserveSeatOn_def reserveSeat_def insertReservation_def Let_def
              numeral_2_eq_2 numeral_3_eq_3 liftError_def)
        with nf3 show ?thesis by auto
      qed
    qed
  qed
qed

lemma run_step_Inl:
  fixes base :: "db \<times> (error + 'a)"
  assumes "w = fst base \<and> Inl e = liftError (snd base)"
  obtains e0 where "base = (w, Inl e0)" "e = ServiceError e0"
  using assms by (cases base; cases "snd base") (auto simp: liftError_def)

lemma run_step_Inr:
  fixes base :: "db \<times> (error + 'a)"
  assumes "w = fst base \<and> Inr r = liftError (snd base)"
  shows "base = (w, Inr r)"
  using assms by (cases base; cases "snd base") (auto simp: liftError_def)

lemma reserveSeatsOn_run:
  assumes "reserveSeatsOn fails k sid user expires dbNow labels acc s = ((w, out), n)"
    and "\<forall>j<k. \<not> fails j"
  shows "k \<le> n
    \<and> ((\<exists>j<n. fails j) \<longrightarrow>
          out = Inl QueryFailedError \<and> fails (n - 1) \<and> (\<forall>j<n - 1. \<not> fails j))
    \<and> (\<not> (\<exists>j<n. fails j) \<longrightarrow>
          w = fst (reserveSeats sid user expires dbNow labels acc s)
          \<and> out = liftError (snd (reserveSeats sid user expires dbNow labels acc s)))"
  using assms
proof (induction labels arbitrary: k acc s)
  case Nil
  then show ?case by auto
next
  case (Cons l rest)
  obtain w1 out1 k1 where step: "reserveSeatOn fails k sid user expires dbNow l s = ((w1, out1), k1)"
    by (metis prod.collapse)
  note r = reserveSeatOn_run[OF step Cons.prems(2)]
  from r have lt: "k < k1" by simp
  show ?case
  proof (cases "\<exists>j<k1. fails j")
    case True
    with r have o: "out1 = Inl QueryFailedError" and f: "fails (k1 - 1)" "\<forall>j<k1 - 1. \<not> fails j"
      by simp_all
    from step o Cons.prems(1) have "out = Inl QueryFailedError" "n = k1" by simp_all
    with True f lt show ?thesis by simp
  next
    case nf: False
    with r have b: "w1 = fst (reserveSeat sid user expires dbNow l s)
        \<and> out1 = liftError (snd (reserveSeat sid user expires dbNow l s))"
      by simp
    show ?thesis
    proof (cases out1)
      case (Inl e)
      from b[unfolded Inl] obtain e0 where
        base: "reserveSeat sid user expires dbNow l s = (w1, Inl e0)" and e: "e = ServiceError e0"
        by (rule run_step_Inl)
      from step Inl Cons.prems(1) have "w = w1" "out = Inl e" "n = k1" by simp_all
      with nf base e lt show ?thesis by simp
    next
      case (Inr dto)
      from b[unfolded Inr]
      have base: "reserveSeat sid user expires dbNow l s = (w1, Inr dto)"
        by (rule run_step_Inr)
      from step Inr Cons.prems(1)
      have tail: "reserveSeatsOn fails k1 sid user expires dbNow rest (acc @ [dto]) w1 = ((w, out), n)"
        by simp
      from nf have nf1: "\<forall>j<k1. \<not> fails j" by simp
      from Cons.IH[OF tail nf1] have ih: "k1 \<le> n
        \<and> ((\<exists>j<n. fails j) \<longrightarrow>
              out = Inl QueryFailedError \<and> fails (n - 1) \<and> (\<forall>j<n - 1. \<not> fails j))
        \<and> (\<not> (\<exists>j<n. fails j) \<longrightarrow>
              w = fst (reserveSeats sid user expires dbNow rest (acc @ [dto]) w1)
              \<and> out = liftError
                      (snd (reserveSeats sid user expires dbNow rest (acc @ [dto]) w1)))" .
      have "reserveSeats sid user expires dbNow (l # rest) acc s
          = reserveSeats sid user expires dbNow rest (acc @ [dto]) w1"
        using base by simp
      with ih lt show ?thesis by simp
    qed
  qed
qed

lemma createReservationOn_run:
  assumes run: "createReservationOn fails ttl dto now dbNow s = ((s', out), n)"
  shows "0 < n
    \<and> ((\<exists>j<n. fails j) \<longrightarrow>
          out = Inl QueryFailedError \<and> s' = s \<and> fails (n - 1) \<and> (\<forall>j<n - 1. \<not> fails j))
    \<and> (\<not> (\<exists>j<n. fails j) \<longrightarrow>
          s' = fst (createReservation ttl dto now dbNow s)
          \<and> out = liftError (snd (createReservation ttl dto now dbNow s)))"
proof (cases "fails 0")
  case True
  with run have "out = Inl QueryFailedError" "s' = s" "n = 1"
    by (simp_all add: createReservationOn_def)
  with True show ?thesis by auto
next
  case f0: False
  then have nf1: "\<forall>j<Suc 0. \<not> fails j" by simp
  show ?thesis
  proof (cases "findSession s (cr_sessionId dto)")
    case None
    with run f0 have "out = Inl (ServiceError (SessionNotFound (cr_sessionId dto)))" "s' = s" "n = 1"
      by (simp_all add: createReservationOn_def)
    with None f0 show ?thesis by (simp add: createReservation_def)
  next
    case (Some session)
    obtain w lout m where loop: "reserveSeatsOn fails (Suc 0) (session_id session) (cr_userId dto)
        (now + ttl * 1000) dbNow (sort (seatNumbers dto)) [] s = ((w, lout), m)"
      by (metis prod.collapse)
    note r = reserveSeatsOn_run[OF loop nf1]
    from r have pos: "0 < m" by simp
    from run f0 Some loop have n: "n = m"
      by (cases lout) (simp_all add: createReservationOn_def)
    show ?thesis
    proof (cases "\<exists>j<m. fails j")
      case True
      with r have "lout = Inl QueryFailedError" "fails (m - 1)" "\<forall>j<m - 1. \<not> fails j"
        by simp_all
      moreover from this(1) run f0 Some loop have "out = Inl QueryFailedError" "s' = s"
        by (simp_all add: createReservationOn_def)
      ultimately show ?thesis using True n pos by simp
    next
      case nf: False
      with r have b: "w = fst (reserveSeats (session_id session) (cr_userId dto)
              (now + ttl * 1000) dbNow (sort (seatNumbers dto)) [] s)
          \<and> lout = liftError (snd (reserveSeats (session_id session) (cr_userId dto)
              (now + ttl * 1000) dbNow (sort (seatNumbers dto)) [] s))"
        by simp
      show ?thesis
      proof (cases lout)
        case (Inl e)
        from b[unfolded Inl] obtain e0 where
          base: "reserveSeats (session_id session) (cr_userId dto)
              (now + ttl * 1000) dbNow (sort (seatNumbers dto)) [] s = (w, Inl e0)"
          and e: "e = ServiceError e0"
          by (rule run_step_Inl)
        from run f0 Some loop Inl have "out = Inl e" "s' = s"
          by (simp_all add: createReservationOn_def)
        with nf n pos Some base e show ?thesis by (simp add: createReservation_def)
      next
        case (Inr rs)
        from b[unfolded Inr]
        have base: "reserveSeats (session_id session) (cr_userId dto)
              (now + ttl * 1000) dbNow (sort (seatNumbers dto)) [] s = (w, Inr rs)"
          by (rule run_step_Inr)
        from run f0 Some loop Inr have "out = Inr rs" "s' = w"
          by (simp_all add: createReservationOn_def)
        with nf n pos Some base show ?thesis by (simp add: createReservation_def)
      qed
    qed
  qed
qed

lemma expireReservationOn_run:
  assumes run: "expireReservationOn fails rid now s = ((s', out), n)"
  shows "0 < n
    \<and> ((\<exists>j<n. fails j) \<longrightarrow>
          out = Inl QueryFailedError \<and> s' = s \<and> fails (n - 1) \<and> (\<forall>j<n - 1. \<not> fails j))
    \<and> (\<not> (\<exists>j<n. fails j) \<longrightarrow> s' = expireReservation rid now s \<and> out = Inr ())"
proof (cases "fails 0")
  case True
  with run have "out = Inl QueryFailedError" "s' = s" "n = 1"
    by (simp_all add: expireReservationOn_def)
  with True show ?thesis by auto
next
  case f0: False
  then have nf1: "\<forall>j<Suc 0. \<not> fails j" by simp
  show ?thesis
  proof (cases "\<exists>r seat. lockReservationWithSeat s rid = Some (r, seat) \<and> status r = PENDING
            \<and> expiresAt r < now")
    case False
    then have "expireReservation rid now s = s" by (rule expire_noop)
    moreover from False run f0 have "out = Inr ()" "s' = s" "n = 1"
      by (auto simp: expireReservationOn_def split: option.splits if_splits)
    ultimately show ?thesis using f0 by simp
  next
    case True
    then obtain r seat where l: "lockReservationWithSeat s rid = Some (r, seat)"
      and p: "status r = PENDING" and t: "expiresAt r < now" by blast
    show ?thesis
    proof (cases "fails (Suc 0)")
      case True
      with run f0 l p t have "out = Inl QueryFailedError" "s' = s" "n = Suc (Suc 0)"
        by (simp_all add: expireReservationOn_def)
      with True nf1 show ?thesis by auto
    next
      case f1: False
      with nf1 have nf2: "\<forall>j<Suc (Suc 0). \<not> fails j" by (simp add: fails_upto)
      show ?thesis
      proof (cases "fails (Suc (Suc 0))")
        case True
        with run f0 f1 l p t have "out = Inl QueryFailedError" "s' = s" "n = Suc (Suc (Suc 0))"
          by (simp_all add: expireReservationOn_def numeral_2_eq_2 numeral_3_eq_3)
        with True nf2 show ?thesis by auto
      next
        case f2: False
        with nf2 have nf3: "\<forall>j<Suc (Suc (Suc 0)). \<not> fails j" by (simp add: fails_upto)
        from run f0 f1 f2 l p t have "out = Inr ()" "n = Suc (Suc (Suc 0))"
          "s' = expireReservation rid now s"
          by (simp_all add: expireReservationOn_def expireReservation_def numeral_2_eq_2
              numeral_3_eq_3)
        with nf3 show ?thesis by auto
      qed
    qed
  qed
qed

lemma confirmOneOn_run:
  assumes run: "confirmOneOn fails k paid dbNow m s = ((w, out), n)"
    and nf: "\<forall>j<k. \<not> fails j"
  shows "k < n
    \<and> ((\<exists>j<n. fails j) \<longrightarrow>
          out = Inl QueryFailedError \<and> fails (n - 1) \<and> (\<forall>j<n - 1. \<not> fails j))
    \<and> (\<not> (\<exists>j<n. fails j) \<longrightarrow>
          out = Inr (fst (confirmOne paid dbNow m s)) \<and> w = snd (confirmOne paid dbNow m s))"
proof -
  obtain res seat session where m: "m = (res, seat, session)" by (cases m) auto
  show ?thesis
  proof (cases "fails k")
    case True
    with run have "out = Inl QueryFailedError" "n = Suc k" by (simp_all add: confirmOneOn_def m)
    with True nf show ?thesis by auto
  next
    case f0: False
    with nf have nf1: "\<forall>j<Suc k. \<not> fails j" by (simp add: fails_upto)
    show ?thesis
    proof (cases "fails (Suc k)")
      case True
      with run f0 have "out = Inl QueryFailedError" "n = Suc (Suc k)"
        by (simp_all add: confirmOneOn_def m)
      with True nf1 show ?thesis by auto
    next
      case f1: False
      with nf1 have nf2: "\<forall>j<Suc (Suc k). \<not> fails j" by (simp add: fails_upto)
      show ?thesis
      proof (cases "fails (Suc (Suc k))")
        case True
        with run f0 f1 have "out = Inl QueryFailedError" "n = Suc (Suc (Suc k))"
          by (simp_all add: confirmOneOn_def m numeral_2_eq_2 numeral_3_eq_3)
        with True nf2 show ?thesis by auto
      next
        case f2: False
        with nf2 have nf3: "\<forall>j<Suc (Suc (Suc k)). \<not> fails j" by (simp add: fails_upto)
        from run f0 f1 f2 have "n = Suc (Suc (Suc k))"
          "out = Inr (fst (confirmOne paid dbNow m s))" "w = snd (confirmOne paid dbNow m s)"
          by (auto simp: confirmOneOn_def confirmOne_def m insertSale_def Let_def
              numeral_2_eq_2 numeral_3_eq_3)
        with nf3 show ?thesis by auto
      qed
    qed
  qed
qed

lemma confirmAllOn_run:
  assumes "confirmAllOn fails k paid dbNow ms acc s = ((w, out), n)"
    and "\<forall>j<k. \<not> fails j"
  shows "k \<le> n
    \<and> ((\<exists>j<n. fails j) \<longrightarrow>
          out = Inl QueryFailedError \<and> fails (n - 1) \<and> (\<forall>j<n - 1. \<not> fails j))
    \<and> (\<not> (\<exists>j<n. fails j) \<longrightarrow>
          out = Inr (fst (confirmAll paid dbNow ms acc s))
          \<and> w = snd (confirmAll paid dbNow ms acc s))"
  using assms
proof (induction ms arbitrary: k acc s)
  case Nil
  then show ?case by auto
next
  case (Cons m ms)
  obtain w1 out1 k1 where step: "confirmOneOn fails k paid dbNow m s = ((w1, out1), k1)"
    by (metis prod.collapse)
  note r = confirmOneOn_run[OF step Cons.prems(2)]
  from r have lt: "k < k1" by simp
  show ?case
  proof (cases "\<exists>j<k1. fails j")
    case True
    with r have o: "out1 = Inl QueryFailedError" and f: "fails (k1 - 1)" "\<forall>j<k1 - 1. \<not> fails j"
      by simp_all
    from step o Cons.prems(1) have "out = Inl QueryFailedError" "n = k1" by simp_all
    with True f lt show ?thesis by simp
  next
    case nf: False
    with r have b: "out1 = Inr (fst (confirmOne paid dbNow m s))" "w1 = snd (confirmOne paid dbNow m s)"
      by simp_all
    from step b(1) Cons.prems(1)
    have tail: "confirmAllOn fails k1 paid dbNow ms (acc @ [fst (confirmOne paid dbNow m s)]) w1
        = ((w, out), n)"
      by simp
    from nf have nf1: "\<forall>j<k1. \<not> fails j" by simp
    from Cons.IH[OF tail nf1] have ih: "k1 \<le> n
      \<and> ((\<exists>j<n. fails j) \<longrightarrow>
            out = Inl QueryFailedError \<and> fails (n - 1) \<and> (\<forall>j<n - 1. \<not> fails j))
      \<and> (\<not> (\<exists>j<n. fails j) \<longrightarrow>
            out = Inr (fst (confirmAll paid dbNow ms (acc @ [fst (confirmOne paid dbNow m s)]) w1))
            \<and> w = snd (confirmAll paid dbNow ms (acc @ [fst (confirmOne paid dbNow m s)]) w1))" .
    have "confirmAll paid dbNow (m # ms) acc s
        = confirmAll paid dbNow ms (acc @ [fst (confirmOne paid dbNow m s)]) w1"
      using b(2) by (simp add: case_prod_beta)
    with ih lt show ?thesis by simp
  qed
qed

lemma confirmPaymentOn_run:
  assumes run: "confirmPaymentOn fails dto now paid dbNow s = ((s', out), n)"
  shows "0 < n
    \<and> ((\<exists>j<n. fails j) \<longrightarrow>
          out = Inl QueryFailedError \<and> s' = s \<and> fails (n - 1) \<and> (\<forall>j<n - 1. \<not> fails j))
    \<and> (\<not> (\<exists>j<n. fails j) \<longrightarrow>
          s' = fst (confirmPayment dto now paid dbNow s)
          \<and> out = liftError (snd (confirmPayment dto now paid dbNow s)))"
proof (cases "fails 0")
  case True
  with run have "out = Inl QueryFailedError" "s' = s" "n = 1"
    by (simp_all add: confirmPaymentOn_def confirmPaymentOn_try_def rollbackTransaction_def)
  with True show ?thesis by auto
next
  case f0: False
  then have nf1: "\<forall>j<Suc 0. \<not> fails j" by simp
  note defs = confirmPaymentOn_def confirmPaymentOn_try_def rollbackTransaction_def
  show ?thesis
  proof (cases "lockReservationForUser s (cp_reservationId dto) (cp_userId dto)")
    case None
    with run f0 have "out = Inl (ServiceError (ReservationNotFound (cp_reservationId dto)))"
      "s' = s" "n = 1"
      by (simp_all add: defs)
    with None f0 show ?thesis by (simp add: confirmPayment_unfold)
  next
    case (Some p)
    obtain r seat session where p: "p = (r, seat, session)" by (cases p) auto
    note l = Some[unfolded p]
    consider (refused) "status r \<noteq> CONFIRMED" "status r \<noteq> PENDING \<or> expiresAt r < now"
      | (conflict) "status r = CONFIRMED \<or> (status r = PENDING \<and> now \<le> expiresAt r)" "fails (Suc 0)"
      | (replay) "status r = CONFIRMED" "\<not> fails (Suc 0)"
      | (confirm) "status r = PENDING" "now \<le> expiresAt r" "\<not> fails (Suc 0)"
      by fastforce
    then show ?thesis
    proof cases
      case refused
      with run f0 l have "s' = s" "n = 1"
        "out = liftError (snd (confirmPayment dto now paid dbNow s))"
        by (auto simp: defs confirmPayment_unfold split: if_splits)
      moreover from refused l have "fst (confirmPayment dto now paid dbNow s) = s"
        by (auto simp: confirmPayment_unfold)
      ultimately show ?thesis using f0 by simp
    next
      case conflict
      with run f0 l have "out = Inl QueryFailedError" "s' = s" "n = Suc (Suc 0)"
        by (auto simp: defs split: if_splits)
      with conflict nf1 show ?thesis by auto
    next
      case replay
      with nf1 have nf2: "\<forall>j<Suc (Suc 0). \<not> fails j" by (simp add: fails_upto)
      from run f0 l replay have "n = Suc (Suc 0)" "s' = fst (confirmPayment dto now paid dbNow s)"
        "out = liftError (snd (confirmPayment dto now paid dbNow s))"
        by (auto simp: defs confirmPayment_unfold split: option.splits sum.splits)
      with nf2 show ?thesis by auto
    next
      case confirm
      with nf1 have nf2: "\<forall>j<Suc (Suc 0). \<not> fails j" by (simp add: fails_upto)
      let ?ms = "lockRelatedReservations s (userId r) (sessionId seat) (expiresAt r)"
      obtain w lout m where loop: "confirmAllOn fails (Suc (Suc 0)) paid dbNow ?ms [] s = ((w, lout), m)"
        by (metis prod.collapse)
      note a = confirmAllOn_run[OF loop nf2]
      from a have pos: "0 < m" by simp
      have tryblock: "confirmPaymentOn_try fails dto now paid dbNow s =
          (case ((w, lout), m) of
             ((w, Inl e), n) \<Rightarrow> (((w, True), Inl e), n)
           | ((w, Inr newSales), n) \<Rightarrow>
               (case find (\<lambda>x. reservationId x = reservation_id r) newSales of
                  None \<Rightarrow> (((w, False), Inl (ServiceError PrimarySaleNotFound)), n)
                | Some primarySale \<Rightarrow>
                    (case find (\<lambda>x. sale_id x = sale_id primarySale) (sales w) of
                       None \<Rightarrow> (((w, False), Inl (ServiceError SaleNotFoundAfterCreation)), n)
                     | Some saleWithRelations \<Rightarrow>
                         (((w, False), liftError (saleResponse w saleWithRelations)), n))))"
        using f0 l confirm loop by (simp add: confirmPaymentOn_try_def numeral_2_eq_2)
      show ?thesis
      proof (cases "\<exists>j<m. fails j")
        case True
        with a have lo: "lout = Inl QueryFailedError" and f: "fails (m - 1)" "\<forall>j<m - 1. \<not> fails j"
          by simp_all
        from run tryblock lo have "out = Inl QueryFailedError" "s' = s" "n = m"
          by (simp_all add: confirmPaymentOn_def rollbackTransaction_def)
        with True f pos show ?thesis by simp
      next
        case nf: False
        with a have b: "lout = Inr (fst (confirmAll paid dbNow ?ms [] s))"
          "w = snd (confirmAll paid dbNow ?ms [] s)" by simp_all
        then have base: "confirmAll paid dbNow ?ms [] s = (fst (confirmAll paid dbNow ?ms [] s), w)"
          by simp
        from run tryblock b(1) have "n = m" "s' = fst (confirmPayment dto now paid dbNow s)"
          "out = liftError (snd (confirmPayment dto now paid dbNow s))"
          using l confirm base
          by (auto simp: confirmPaymentOn_def rollbackTransaction_def confirmPayment_unfold
              split: option.splits sum.splits prod.splits)
        with nf pos show ?thesis by simp
      qed
    qed
  qed
qed

text \<open>
  Claim C7 as stated fails: when the store rejects the seat query of a request that would
  otherwise succeed, \<open>createReservation\<close> throws that \<open>QueryFailedError\<close> after two store
  operations and one attempt.  And \<open>retryWithBackoff\<close> itself, with the options of the
  README, waits 100 ms and 200 ms around three attempts, never 400 ms; without options its
  cap is 5000 ms and it retries every error, \<open>NotFoundException\<close> included.
\<close>

theorem createReservation_conflict_counterexample:
  "createReservationOn neverFails 30 holdA1 1000 1001 store0 =
      ((firstHoldStore,
        Inr [\<lparr>rr_id = 100, rr_seatId = 10, rr_seatNumber = ''A1'', rr_userId = ''u1'',
              rr_status = PENDING, rr_expiresAt = 31000, rr_createdAt = 1001\<rparr>]), 4)
   \<and> createReservationOn (conflictAt 1) 30 holdA1 1000 1001 store0 =
      ((store0, Inl QueryFailedError), 2)
   \<and> retryWithBackoff alwaysConflict readmeOptions = (Thrown QueryFailedError, [100, 200])
   \<and> snd (retryWithBackoff alwaysConflict readmeOptions) \<noteq> [100, 200, 400]
   \<and> maxDelayMs (mergeOptions defaultOptions noOptions) = 5000
   \<and> retryWithBackoff notFoundFirst noOptions
        = (Thrown (ServiceError (SessionNotFound 7)), [100, 200])"
proof -
  have "createReservationOn neverFails 30 holdA1 1000 1001 store0 =
      ((firstHoldStore,
        Inr [\<lparr>rr_id = 100, rr_seatId = 10, rr_seatNumber = ''A1'', rr_userId = ''u1'',
              rr_status = PENDING, rr_expiresAt = 31000, rr_createdAt = 1001\<rparr>]), 4)"
    by code_simp
  moreover have "createReservationOn (conflictAt 1) 30 holdA1 1000 1001 store0 =
      ((store0, Inl QueryFailedError), 2)"
    by code_simp
  moreover have "retryWithBackoff notFoundFirst noOptions
        = (Thrown (ServiceError (SessionNotFound 7)), [100, 200])"
    by code_simp
  moreover have "maxDelayMs (mergeOptions defaultOptions noOptions) = 5000"
    by (simp add: mergeOptions_def defaultOptions_def noOptions_def)
  ultimately show ?thesis using readme_run by simp
qed

text \<open>
  Claim C7, amended.  When the store rejects an operation of a \<open>createReservation\<close>,
  \<open>confirmPayment\<close> or \<open>expireReservation\<close> transaction, the method throws that
  \<open>QueryFailedError\<close> and leaves the store as it was, and the rejected operation is the
  last one the call issues: there is no second attempt.  When the store rejects nothing,
  the call does what the method does, so its own errors are thrown from the one attempt as
  well.  \<open>retryWithBackoff\<close>, which none of the three methods calls, runs its block at
  most \<open>maxAttempts\<close> times; after the \<open>k\<close>-th failed call, when the error is retryable
  and attempts remain, it waits
  \<open>min (initialDelayMs * backoffMultiplier ^ (k - 1)) maxDelayMs\<close>; it rethrows the error
  of a call when that error is not retryable or the call was the last allowed one.
\<close>

theorem storeConflict_not_retried:
  "(createReservationOn fails ttl cdto now dbNow s = ((s1, out1), n1) \<longrightarrow>
      0 < n1
      \<and> ((\<exists>j<n1. fails j) \<longrightarrow>
            out1 = Inl QueryFailedError \<and> s1 = s \<and> fails (n1 - 1) \<and> (\<forall>j<n1 - 1. \<not> fails j))
      \<and> (\<not> (\<exists>j<n1. fails j) \<longrightarrow>
            s1 = fst (createReservation ttl cdto now dbNow s)
            \<and> out1 = liftError (snd (createReservation ttl cdto now dbNow s))))
   \<and> (confirmPaymentOn fails pdto now paid dbNow s = ((s2, out2), n2) \<longrightarrow>
      0 < n2
      \<and> ((\<exists>j<n2. fails j) \<longrightarrow>
            out2 = Inl QueryFailedError \<and> s2 = s \<and> fails (n2 - 1) \<and> (\<forall>j<n2 - 1. \<not> fails j))
      \<and> (\<not> (\<exists>j<n2. fails j) \<longrightarrow>
            s2 = fst (confirmPayment pdto now paid dbNow s)
            \<and> out2 = liftError (snd (confirmPayment pdto now paid dbNow s))))
   \<and> (expireReservationOn fails rid now s = ((s3, out3), n3) \<longrightarrow>
      0 < n3
      \<and> ((\<exists>j<n3. fails j) \<longrightarrow>
            out3 = Inl QueryFailedError \<and> s3 = s \<and> fails (n3 - 1) \<and> (\<forall>j<n3 - 1. \<not> fails j))
      \<and> (\<not> (\<exists>j<n3. fails j) \<longrightarrow> s3 = expireReservation rid now s \<and> out3 = Inr ()))
   \<and> (retryWithBackoff fn options = (out, slept)
       \<and> opts = mergeOptions defaultOptions options \<and> 1 \<le> maxAttempts opts \<longrightarrow>
      length slept < maxAttempts opts
      \<and> (\<forall>i < length slept.
            slept ! i = min (initialDelayMs opts * backoffMultiplier opts ^ i) (maxDelayMs opts))
      \<and> (\<forall>k. 1 \<le> k \<and> k \<le> length slept \<longrightarrow> (\<exists>e. fn k = Inl e \<and> retryable opts e))
      \<and> (case out of
            Returned v \<Rightarrow> fn (length slept + 1) = Inr v
          | Thrown e \<Rightarrow> fn (length slept + 1) = Inl e
              \<and> (\<not> retryable opts e \<or> length slept + 1 = maxAttempts opts)
          | ThrownUndefined \<Rightarrow> False))"
proof -
  have create: "createReservationOn fails ttl cdto now dbNow s = ((s1, out1), n1) \<longrightarrow>
      0 < n1
      \<and> ((\<exists>j<n1. fails j) \<longrightarrow>
            out1 = Inl QueryFailedError \<and> s1 = s \<and> fails (n1 - 1) \<and> (\<forall>j<n1 - 1. \<not> fails j))
      \<and> (\<not> (\<exists>j<n1. fails j) \<longrightarrow>
            s1 = fst (createReservation ttl cdto now dbNow s)
            \<and> out1 = liftError (snd (createReservation ttl cdto now dbNow s)))"
    by (rule impI) (rule createReservationOn_run)
  have confirm: "confirmPaymentOn fails pdto now paid dbNow s = ((s2, out2), n2) \<longrightarrow>
      0 < n2
      \<and> ((\<exists>j<n2. fails j) \<longrightarrow>
            out2 = Inl QueryFailedError \<and> s2 = s \<and> fails (n2 - 1) \<and> (\<forall>j<n2 - 1. \<not> fails j))
      \<and> (\<not> (\<exists>j<n2. fails j) \<longrightarrow>
            s2 = fst (confirmPayment pdto now paid dbNow s)
            \<and> out2 = liftError (snd (confirmPayment pdto now paid dbNow s)))"
    by (rule impI) (rule confirmPaymentOn_run)
  have expire: "expireReservationOn fails rid now s = ((s3, out3), n3) \<longrightarrow>
      0 < n3
      \<and> ((\<exists>j<n3. fails j) \<longrightarrow>
            out3 = Inl QueryFailedError \<and> s3 = s \<and> fails (n3 - 1) \<and> (\<forall>j<n3 - 1. \<not> fails j))
      \<and> (\<not> (\<exists>j<n3. fails j) \<longrightarrow> s3 = expireReservation rid now s \<and> out3 = Inr ())"
    by (rule impI) (rule expireReservationOn_run)
  have retry: "retryWithBackoff fn options = (out, slept)
       \<and> opts = mergeOptions defaultOptions options \<and> 1 \<le> maxAttempts opts \<longrightarrow>
      length slept < maxAttempts opts
      \<and> (\<forall>i < length slept.
            slept ! i = min (initialDelayMs opts * backoffMultiplier opts ^ i) (maxDelayMs opts))
      \<and> (\<forall>k. 1 \<le> k \<and> k \<le> length slept \<longrightarrow> (\<exists>e. fn k = Inl e \<and> retryable opts e))
      \<and> (case out of
            Returned v \<Rightarrow> fn (length slept + 1) = Inr v
          | Thrown e \<Rightarrow> fn (length slept + 1) = Inl e
              \<and> (\<not> retryable opts e \<or> length slept + 1 = maxAttempts opts)
          | ThrownUndefined \<Rightarrow> False)"
  proof (intro conjI impI)
  assume a: "retryWithBackoff fn options = (out, slept)
       \<and> opts = mergeOptions defaultOptions options \<and> 1 \<le> maxAttempts opts"
  then have o: "opts = mergeOptions defaultOptions options" and le: "1 \<le> maxAttempts opts"
    by blast+
  from a have "retryLoop opts fn 1 None [] = (out, slept)"
    unfolding retryWithBackoff_def o by blast
  note this le
  from retryLoop_trace[OF this] obtain more where
    m: "slept = more" "\<forall>i < length more. more ! i = delayAfter opts (1 + i)"
      "1 + length more \<le> maxAttempts opts"
      "\<forall>k. 1 \<le> k \<and> k < 1 + length more \<longrightarrow> (\<exists>e. fn k = Inl e \<and> retryable opts e)"
      "(case out of
          Returned v \<Rightarrow> fn (1 + length more) = Inr v
        | Thrown e \<Rightarrow> fn (1 + length more) = Inl e
            \<and> (\<not> retryable opts e \<or> 1 + length more = maxAttempts opts)
        | ThrownUndefined \<Rightarrow> False)"
    by auto
  show "length slept < maxAttempts opts" using m(1,3) by simp
  show "\<forall>i < length slept.
          slept ! i = min (initialDelayMs opts * backoffMultiplier opts ^ i) (maxDelayMs opts)"
    using m(1,2) by (simp add: delayAfter_def)
  show "\<forall>k. 1 \<le> k \<and> k \<le> length slept \<longrightarrow> (\<exists>e. fn k = Inl e \<and> retryable opts e)"
    using m(1,4) by (simp add: less_Suc_eq_le)
  show "(case out of
          Returned v \<Rightarrow> fn (length slept + 1) = Inr v
        | Thrown e \<Rightarrow> fn (length slept + 1) = Inl e
            \<and> (\<not> retryable opts e \<or> length slept + 1 = maxAttempts opts)
        | ThrownUndefined \<Rightarrow> False)"
    using m(1,5) by (simp split: outcome.splits)
  qed
  show ?thesis by (rule conjI[OF create conjI[OF confirm conjI[OF expire retry]]])
qed

theorem storeConflict_not_retried_witness:
  "createReservationOn (conflictAt 1) 30 holdA1 1000 1001 store0
      = ((store0, Inl QueryFailedError), 2)
   \<and> conflictAt 1 1 \<and> \<not> conflictAt 1 0
   \<and> confirmPaymentOn (conflictAt 3) confirm100 2000 2001 2002 heldStore
      = ((heldStore, Inl QueryFailedError), 4)
   \<and> expireReservationOn (conflictAt 2) 100 31001 heldStore
      = ((heldStore, Inl QueryFailedError), 3)
   \<and> createReservationOn neverFails 30 partialDto 40000 40001 heldStore
      = ((heldStore, Inl (ServiceError (SeatNotFound ''B9'' 1))), 5)
   \<and> createReservation 30 partialDto 40000 40001 heldStore
      = (heldStore, Inl (SeatNotFound ''B9'' 1))
   \<and> retryWithBackoff alwaysConflict readmeOptions = (Thrown QueryFailedError, [100, 200])
   \<and> maxAttempts (mergeOptions defaultOptions readmeOptions) = 3
   \<and> alwaysConflict 3 = Inl QueryFailedError"
proof -
  have c: "createReservationOn (conflictAt 1) 30 holdA1 1000 1001 store0
      = ((store0, Inl QueryFailedError), 2)"
    by code_simp
  have p: "confirmPaymentOn (conflictAt 3) confirm100 2000 2001 2002 heldStore
      = ((heldStore, Inl QueryFailedError), 4)"
    by code_simp
  have x: "expireReservationOn (conflictAt 2) 100 31001 heldStore
      = ((heldStore, Inl QueryFailedError), 3)"
    by code_simp
  have m: "maxAttempts (mergeOptions defaultOptions readmeOptions) = 3"
    by (simp add: mergeOptions_def defaultOptions_def readmeOptions_def)
  note t1 = storeConflict_not_retried[where fails = "conflictAt 1" and ttl = 30
      and cdto = holdA1 and now = 1000 and dbNow = 1001 and s = store0 and ?s1.0 = store0
      and ?out1.0 = "Inl QueryFailedError" and ?n1.0 = 2 and fn = alwaysConflict
      and options = readmeOptions and out = "Thrown QueryFailedError"
      and slept = "[100, 200]" and opts = "mergeOptions defaultOptions readmeOptions"]
  have e: "\<exists>j<2. conflictAt 1 j" by (auto simp: conflictAt_def intro: exI[of _ 1])
  from t1 c e have a: "conflictAt 1 (2 - 1) \<and> (\<forall>j<2 - 1. \<not> conflictAt 1 j)" by blast
  then have a1: "conflictAt 1 1" and a2: "\<not> conflictAt 1 0" by simp_all
  from t1 readme_run m have "alwaysConflict (length [100, 200 :: nat] + 1) = Inl QueryFailedError"
    by simp
  then have b: "alwaysConflict 3 = Inl QueryFailedError" by (simp add: numeral_3_eq_3)
  have n: "createReservationOn neverFails 30 partialDto 40000 40001 heldStore
      = ((heldStore, Inl (ServiceError (SeatNotFound ''B9'' 1))), 5)"
    by code_simp
  have nf: "\<not> (\<exists>j<5. neverFails j)" by (simp add: neverFails_def)
  from storeConflict_not_retried[where fails = neverFails and ttl = 30 and cdto = partialDto
      and now = 40000 and dbNow = 40001 and s = heldStore and ?s1.0 = heldStore
      and ?out1.0 = "Inl (ServiceError (SeatNotFound ''B9'' 1))" and ?n1.0 = 5] n nf
  have "heldStore = fst (createReservation 30 partialDto 40000 40001 heldStore)
      \<and> Inl (ServiceError (SeatNotFound ''B9'' 1))
          = liftError (snd (createReservation 30 partialDto 40000 40001 heldStore))"
    by blast
  then have d: "createReservation 30 partialDto 40000 40001 heldStore
      = (heldStore, Inl (SeatNotFound ''B9'' 1))"
    by (cases "createReservation 30 partialDto 40000 40001 heldStore";
        cases "snd (createReservation 30 partialDto 40000 40001 heldStore)")
       (auto simp: liftError_def)
  from c a1 a2 p x n d readme_run m b show ?thesis by simp
qed

end
